theory Spec2Isabelle
  imports Main "HOL-Library.Multiset"
begin

section \<open>The syntax tree\<close>

text \<open>
  The extractor of \<^verbatim>\<open>component-extractor.ts\<close> works on the syntax tree that the Babel
  parser builds. Only the node kinds the extractor inspects get a constructor of their
  own; every other kind of node (statements, expressions, fragments, spread attributes
  and so on) is \<open>Other\<close>, with its type tag and its sub-nodes in the order the
  traversal visits them.

  A \<open>JSXElement\<close> carries the name of its opening element, the attributes of the opening
  element, the self-closing flag and its children. The source compares elements by
  object identity (\<^verbatim>\<open>path.node === node\<close>, \<^verbatim>\<open>occurrences.includes(path.node)\<close>); the
  first field of \<open>JSXElement\<close> is that identity: two elements are the same object exactly
  when they carry the same number.
\<close>

datatype jsx_name =
    JSXIdentifier string
  | JSXMemberExpression jsx_name string
  | JSXNamespacedName string string

datatype node =
    File node
  | Program "node list"
  | JSXElement nat jsx_name "node list" bool "node list"
  | JSXAttribute jsx_name "node option"
  | StringLiteral string
  | JSXExpressionContainer node
  | JSXText string
  | Identifier string
  | Other string "node list"

text \<open>
  What the extractor takes from the Babel packages, which are not part of this
  repository: the parser (\<open>None\<close> when it throws a syntax error; otherwise the body of the
  program of the file it returns), the code generator, and \<open>crawl_fails\<close>, which says of
  a node that the traversal throws when it enters it, for a reason other than the one
  modelled in \<open>enter_throws\<close> below (the crawl of a scope can fail in more ways when
  there is no scope of the program, for instance on a reference to a name that no scope
  binds).
\<close>

record babel =
  parse :: "string \<Rightarrow> node list option"
  generate :: "node \<Rightarrow> string"
  crawl_fails :: "node \<Rightarrow> bool"

datatype error = SyntaxError | TypeError

section \<open>Strings\<close>

text \<open>
  Numbers interpolated into a template literal are printed in decimal. Letters are
  lowercased, and recognised as uppercase, in the ASCII range only; characters outside
  of it are left as they are.
\<close>

definition digit_char :: "nat \<Rightarrow> char" where
  "digit_char d = char_of (48 + d)"

fun decimal :: "nat \<Rightarrow> string" where
  "decimal n = (if n < 10 then [digit_char n] else decimal (n div 10) @ [digit_char (n mod 10)])"

declare decimal.simps [simp del]

definition isUpper :: "char \<Rightarrow> bool" where
  "isUpper c = (65 \<le> (of_char c :: nat) \<and> (of_char c :: nat) \<le> 90)"

definition toLowerChar :: "char \<Rightarrow> char" where
  "toLowerChar c = (if isUpper c then char_of ((of_char c :: nat) + 32) else c)"

definition toLowerCase :: "string \<Rightarrow> string" where
  "toLowerCase s = map toLowerChar s"

section \<open>Fingerprints\<close>

text \<open>The generator prints a member-expression name as its object, a dot, its property.\<close>

fun generate_name :: "jsx_name \<Rightarrow> string" where
  "generate_name (JSXIdentifier s) = s"
| "generate_name (JSXMemberExpression obj prop) = generate_name obj @ ''.'' @ prop"
| "generate_name (JSXNamespacedName ns s) = ns @ '':'' @ s"

fun tagName_of :: "jsx_name \<Rightarrow> string" where
  "tagName_of (JSXIdentifier s) = s"
| "tagName_of (JSXMemberExpression obj prop) = generate_name (JSXMemberExpression obj prop)"
| "tagName_of (JSXNamespacedName ns s) = []"

text \<open>
  One turn of the loop over the attributes: a \<open>className\<close> attribute whose value is a
  string literal or an expression container overwrites the class names found so far.
\<close>

fun className_step :: "babel \<Rightarrow> string \<Rightarrow> node \<Rightarrow> string" where
  "className_step B classNames (JSXAttribute nm v) =
     (if nm = JSXIdentifier ''className'' then
        (case v of
           Some (StringLiteral s) \<Rightarrow> s
         | Some (JSXExpressionContainer e) \<Rightarrow> generate B (JSXExpressionContainer e)
         | _ \<Rightarrow> classNames)
      else classNames)"
| "className_step B classNames _ = classNames"

definition classNames_of :: "babel \<Rightarrow> node list \<Rightarrow> string" where
  "classNames_of B attrs = foldl (className_step B) [] attrs"

fun computeTreeFingerprint :: "babel \<Rightarrow> node \<Rightarrow> string" where
  "computeTreeFingerprint B (JSXElement i nm attrs sc cs) =
     tagName_of nm @ '':'' @ decimal (length attrs) @ '':'' @ decimal (length cs) @ '':''
       @ classNames_of B attrs"
| "computeTreeFingerprint B _ = []"

section \<open>Tag names\<close>

fun getTagName :: "node \<Rightarrow> string option" where
  "getTagName (JSXElement i (JSXIdentifier s) attrs sc cs) = Some s"
| "getTagName _ = None"

text \<open>The empty string is falsy, as \<^verbatim>\<open>null\<close> is.\<close>

definition shouldSkipTag :: "node \<Rightarrow> string set \<Rightarrow> bool" where
  "shouldSkipTag n skip =
     (case getTagName n of
        None \<Rightarrow> True
      | Some tagName \<Rightarrow> if tagName = [] then True else toLowerCase tagName \<in> skip)"

definition isCustomComponent :: "node \<Rightarrow> bool" where
  "isCustomComponent n =
     (case getTagName n of
        None \<Rightarrow> False
      | Some tagName \<Rightarrow> (case tagName of [] \<Rightarrow> False | c # _ \<Rightarrow> isUpper c))"

section \<open>Options\<close>

text \<open>
  The options a caller passes are partial; \<open>None\<close> is an absent key. The extractor
  spreads them over its defaults. The option \<^verbatim>\<open>fingerprintOptions\<close> is passed on to
  \<^verbatim>\<open>computeTreeFingerprint\<close>, which never reads it, so it is left out.
\<close>

record ExtractorOptions =
  minRepeats :: "int option"
  componentNameBase :: "string option"
  skipTags :: "string set option"

record opts =
  opt_minRepeats :: int
  opt_componentNameBase :: string
  opt_skipTags :: "string set"

definition DEFAULT_OPTIONS :: opts where
  "DEFAULT_OPTIONS =
     \<lparr>opt_minRepeats = 2,
      opt_componentNameBase = ''Extracted'',
      opt_skipTags =
        {''svg'', ''clippath'', ''defs'', ''ellipse'', ''g'', ''lineargradient'', ''mask'',
         ''path'', ''pattern'', ''polygon'', ''polyline'', ''radialgradient'', ''rect'', ''stop'',
         ''circle'', ''image'', ''line'', ''text'', ''tspan'', ''use'', ''foreignobject''}\<rparr>"

definition spread :: "opts \<Rightarrow> ExtractorOptions \<Rightarrow> opts" where
  "spread d options =
     \<lparr>opt_minRepeats = (case minRepeats options of None \<Rightarrow> opt_minRepeats d | Some m \<Rightarrow> m),
      opt_componentNameBase =
        (case componentNameBase options of None \<Rightarrow> opt_componentNameBase d | Some b \<Rightarrow> b),
      opt_skipTags = (case skipTags options of None \<Rightarrow> opt_skipTags d | Some s \<Rightarrow> s)\<rparr>"

section \<open>Traversal\<close>

text \<open>
  \<^verbatim>\<open>traverse(root, { JSXElement(path) { ... } })\<close> calls the visitor on every element below
  the root, in pre-order: an element first, then what its attributes contain, then its
  children. \<open>jsx_paths\<close> lists these calls. Each entry is the element (\<^verbatim>\<open>path.node\<close>)
  and its parent element: \<open>Some p\<close> when \<^verbatim>\<open>path.parentPath\<close> exists and its node is the
  \<open>JSXElement\<close> \<open>p\<close>, \<open>None\<close> otherwise. An element found inside an attribute or inside an
  expression has no parent element: its parent is the attribute or the expression. A
  visitor that returns does not keep the traversal from descending.
\<close>

fun jsx_paths :: "node option \<Rightarrow> node \<Rightarrow> (node \<times> node option) list" where
  "jsx_paths par (File p) = jsx_paths None p"
| "jsx_paths par (Program body) = concat (map (jsx_paths None) body)"
| "jsx_paths par (JSXElement i nm attrs sc cs) =
     (JSXElement i nm attrs sc cs, par)
       # concat (map (jsx_paths None) attrs)
       @ concat (map (jsx_paths (Some (JSXElement i nm attrs sc cs))) cs)"
| "jsx_paths par (JSXAttribute nm v) = (case v of None \<Rightarrow> [] | Some x \<Rightarrow> jsx_paths None x)"
| "jsx_paths par (StringLiteral s) = []"
| "jsx_paths par (JSXExpressionContainer e) = jsx_paths None e"
| "jsx_paths par (JSXText s) = []"
| "jsx_paths par (Identifier s) = []"
| "jsx_paths par (Other k ns) = concat (map (jsx_paths None) ns)"

text \<open>
  The extractor hands \<^verbatim>\<open>traverse\<close> the \<^verbatim>\<open>Program\<close> node, not the file, so no path and no
  scope exist for the program itself. When the traversal enters a function declaration or
  a class declaration that no other scope encloses, the crawl of the new scope looks for
  the enclosing scope, finds none, and throws a \<^verbatim>\<open>TypeError\<close>. \<open>scope_types\<close> are the node
  types that make a scope.
\<close>

definition scope_types :: "string set" where
  "scope_types =
     {''BlockStatement'', ''CatchClause'', ''DoWhileStatement'', ''ForInStatement'',
      ''ForStatement'', ''FunctionDeclaration'', ''FunctionExpression'', ''Program'',
      ''ObjectMethod'', ''SwitchStatement'', ''WhileStatement'', ''ArrowFunctionExpression'',
      ''ClassExpression'', ''ClassDeclaration'', ''ForOfStatement'', ''ClassMethod'',
      ''ClassPrivateMethod'', ''StaticBlock'', ''TSModuleBlock''}"

definition enter_throws :: "babel \<Rightarrow> bool \<Rightarrow> string \<Rightarrow> node list \<Rightarrow> bool" where
  "enter_throws B scoped k ns =
     ((\<not> scoped \<and> (k = ''FunctionDeclaration'' \<or> k = ''ClassDeclaration''))
      \<or> crawl_fails B (Other k ns))"

text \<open>
  \<open>trace\<close> lists what a traversal that is never stopped meets, in order: \<open>Some\<close> of a
  path for a call of the visitor on an element, \<open>None\<close> where entering a node throws. The
  traversal ends at the first \<open>None\<close>; what the list holds after it is never reached. The
  flag says whether a scope encloses the node.
\<close>

fun trace :: "babel \<Rightarrow> bool \<Rightarrow> node option \<Rightarrow> node \<Rightarrow> (node \<times> node option) option list" where
  "trace B scoped par (File p) = trace B scoped None p"
| "trace B scoped par (Program body) = concat (map (trace B scoped None) body)"
| "trace B scoped par (JSXElement i nm attrs sc cs) =
     Some (JSXElement i nm attrs sc cs, par)
       # concat (map (trace B scoped None) attrs)
       @ concat (map (trace B scoped (Some (JSXElement i nm attrs sc cs))) cs)"
| "trace B scoped par (JSXAttribute nm v) =
     (case v of None \<Rightarrow> [] | Some x \<Rightarrow> trace B scoped None x)"
| "trace B scoped par (StringLiteral s) = []"
| "trace B scoped par (JSXExpressionContainer e) = trace B scoped None e"
| "trace B scoped par (JSXText s) = []"
| "trace B scoped par (Identifier s) = []"
| "trace B scoped par (Other k ns) =
     (if enter_throws B scoped k ns then [None]
      else concat (map (trace B (scoped \<or> k \<in> scope_types) None) ns))"

definition traverse_throws :: "babel \<Rightarrow> node \<Rightarrow> bool" where
  "traverse_throws B root = (None \<in> set (trace B False None root))"

text \<open>Object identity of two elements.\<close>

fun same_node :: "node \<Rightarrow> node \<Rightarrow> bool" where
  "same_node (JSXElement i nm attrs sc cs) (JSXElement j nm' attrs' sc' cs') = (i = j)"
| "same_node _ _ = False"

fun node_id :: "node \<Rightarrow> nat option" where
  "node_id (JSXElement i nm attrs sc cs) = Some i"
| "node_id _ = None"

text \<open>A tree built by the parser holds every element object once.\<close>

definition distinct_nodes :: "node \<Rightarrow> bool" where
  "distinct_nodes root = distinct (map (\<lambda>path. node_id (fst path)) (jsx_paths None root))"

section \<open>The map of candidates\<close>

text \<open>
  A \<^verbatim>\<open>Map\<close> keeps its keys in the order of their first insertion: an association list
  with distinct keys, a new key added at the end.
\<close>

type_synonym 'v jsmap = "(string \<times> 'v) list"

definition map_has :: "'v jsmap \<Rightarrow> string \<Rightarrow> bool" where
  "map_has m k = (k \<in> fst ` set m)"

fun map_set :: "'v jsmap \<Rightarrow> string \<Rightarrow> 'v \<Rightarrow> 'v jsmap" where
  "map_set [] k v = [(k, v)]"
| "map_set ((k', v') # m) k v = (if k' = k then (k', v) # m else (k', v') # map_set m k v)"

text \<open>
  \<^verbatim>\<open>candidates.get(fingerprint)!.push(node)\<close>: the array stored under the key grows by one.
  The key is always present here, the line before has just set it.
\<close>

fun map_push :: "'v list jsmap \<Rightarrow> string \<Rightarrow> 'v \<Rightarrow> 'v list jsmap" where
  "map_push [] k v = []"
| "map_push ((k', vs) # m) k v =
     (if k' = k then (k', vs @ [v]) # m else (k', vs) # map_push m k v)"

section \<open>Finding the candidates\<close>

record ComponentCandidate =
  fingerprint :: string
  occurrences :: "node list"
  example :: "node option"
  count :: nat
  suggestedName :: string

text \<open>The visitor of the first traversal, with its early returns in the order of the source.\<close>

definition visit_JSXElement ::
  "babel \<Rightarrow> opts \<Rightarrow> node list jsmap \<Rightarrow> node \<times> node option \<Rightarrow> node list jsmap" where
  "visit_JSXElement B opts candidates path =
     (let n = fst path; parentPath = snd path in
      if shouldSkipTag n (opt_skipTags opts) then candidates
      else if (case parentPath of Some p \<Rightarrow> shouldSkipTag p (opt_skipTags opts) | None \<Rightarrow> False)
        then candidates
      else if isCustomComponent n then candidates
      else if parentPath = None then candidates
      else
        let fp = computeTreeFingerprint B n;
            candidates1 = (if \<not> map_has candidates fp then map_set candidates fp [] else candidates)
        in map_push candidates1 fp n)"

text \<open>
  The first traversal is not inside a \<^verbatim>\<open>try\<close>: when it throws, the error leaves
  \<^verbatim>\<open>findComponentCandidates\<close>. Otherwise the visitor has run on every element.
\<close>

definition collect_candidates :: "babel \<Rightarrow> opts \<Rightarrow> node \<Rightarrow> error + node list jsmap" where
  "collect_candidates B opts program =
     (if traverse_throws B program then Inl TypeError
      else Inr (foldl (visit_JSXElement B opts) []
                  (List.map_filter (\<lambda>e. e) (trace B False None program))))"

text \<open>
  \<^verbatim>\<open>findParentPath\<close> traverses the program again, up to the first path whose node is the
  given one, and returns its parent path when the node of that is an element. The
  traversal is inside a \<^verbatim>\<open>try\<close>: when it throws before it has found the node, the result
  is \<^verbatim>\<open>null\<close>.
\<close>

definition findParentPath :: "babel \<Rightarrow> node \<Rightarrow> node \<Rightarrow> node option" where
  "findParentPath B n program =
     (case find (\<lambda>e. case e of None \<Rightarrow> True | Some path \<Rightarrow> same_node (fst path) n)
             (trace B False None program) of
        Some (Some path) \<Rightarrow> snd path
      | _ \<Rightarrow> None)"

definition wrapped_in_custom :: "babel \<Rightarrow> node \<Rightarrow> node list \<Rightarrow> bool" where
  "wrapped_in_custom B program occs =
     list_ex (\<lambda>occ. case findParentPath B occ program of
                      Some p \<Rightarrow> isCustomComponent p
                    | None \<Rightarrow> False) occs"

text \<open>
  The loop over the entries of the map, in the order of the map, with the counter of the
  names.
\<close>

fun collect_results ::
  "babel \<Rightarrow> opts \<Rightarrow> node \<Rightarrow> node list jsmap \<Rightarrow> nat \<Rightarrow> ComponentCandidate list" where
  "collect_results B opts program [] componentCounter = []"
| "collect_results B opts program ((fp, occs) # rest) componentCounter =
     (if int (length occs) < opt_minRepeats opts
        then collect_results B opts program rest componentCounter
      else if wrapped_in_custom B program occs
        then collect_results B opts program rest componentCounter
      else
        \<lparr>fingerprint = fp,
         occurrences = occs,
         example = (case occs of [] \<Rightarrow> None | e # _ \<Rightarrow> Some e),
         count = length occs,
         suggestedName = opt_componentNameBase opts @ decimal (Suc componentCounter)\<rparr>
          # collect_results B opts program rest (Suc componentCounter))"

text \<open>
  \<^verbatim>\<open>results.sort((a, b) => b.count - a.count)\<close>: the sort of an array is stable, so the
  result is the stable sort by descending count.
\<close>

definition program_of :: "node \<Rightarrow> node" where
  "program_of ast = (case ast of File p \<Rightarrow> p | _ \<Rightarrow> ast)"

definition findComponentCandidates ::
  "babel \<Rightarrow> node \<Rightarrow> ExtractorOptions \<Rightarrow> error + ComponentCandidate list" where
  "findComponentCandidates B ast options =
     (let opts = spread DEFAULT_OPTIONS options;
          program = program_of ast
      in case collect_candidates B opts program of
           Inl e \<Rightarrow> Inl e
         | Inr candidates \<Rightarrow>
             Inr (sort_key (\<lambda>c. - int (count c))
                    (collect_results B opts program candidates 0)))"

section \<open>Rewriting\<close>

text \<open>
  A node built by \<^verbatim>\<open>t.cloneNode\<close> or by \<^verbatim>\<open>t.jsxElement\<close> is a new object. The rewriter
  keeps a number above every identity in use, and hands out identities from there.
\<close>

fun max_id :: "node \<Rightarrow> nat" where
  "max_id (File p) = max_id p"
| "max_id (Program ns) = foldr max (map max_id ns) 0"
| "max_id (JSXElement i nm attrs sc cs) =
     max i (max (foldr max (map max_id attrs) 0) (foldr max (map max_id cs) 0))"
| "max_id (JSXAttribute nm v) = (case v of None \<Rightarrow> 0 | Some x \<Rightarrow> max_id x)"
| "max_id (StringLiteral s) = 0"
| "max_id (JSXExpressionContainer e) = max_id e"
| "max_id (JSXText s) = 0"
| "max_id (Identifier s) = 0"
| "max_id (Other k ns) = foldr max (map max_id ns) 0"

text \<open>The deep clone: the same tree, every element a new object.\<close>

fun cloneNode :: "nat \<Rightarrow> node \<Rightarrow> node" where
  "cloneNode off (File p) = File (cloneNode off p)"
| "cloneNode off (Program ns) = Program (map (cloneNode off) ns)"
| "cloneNode off (JSXElement i nm attrs sc cs) =
     JSXElement (off + i) nm (map (cloneNode off) attrs) sc (map (cloneNode off) cs)"
| "cloneNode off (JSXAttribute nm v) =
     JSXAttribute nm (case v of None \<Rightarrow> None | Some x \<Rightarrow> Some (cloneNode off x))"
| "cloneNode off (StringLiteral s) = StringLiteral s"
| "cloneNode off (JSXExpressionContainer e) = JSXExpressionContainer (cloneNode off e)"
| "cloneNode off (JSXText s) = JSXText s"
| "cloneNode off (Identifier s) = Identifier s"
| "cloneNode off (Other k ns) = Other k (map (cloneNode off) ns)"

text \<open>
  The traversal of \<^verbatim>\<open>replaceOccurrencesWithComponent\<close>: in the pre-order of \<open>jsx_paths\<close>,
  the first element that is one of the given objects is replaced, and \<^verbatim>\<open>path.stop()\<close>
  ends the whole traversal there, so the occurrences after it are not visited. The result
  is the new tree and the identity of the element that was replaced, if one was.
  \<open>replace_first\<close> is this traversal where nothing throws.
\<close>

fun replace_first :: "nat list \<Rightarrow> node \<Rightarrow> node \<Rightarrow> node \<times> nat option"
  and replace_first_list :: "nat list \<Rightarrow> node \<Rightarrow> node list \<Rightarrow> node list \<times> nat option" where
  "replace_first ids r (File p) =
     (case replace_first ids r p of (p', hit) \<Rightarrow> (File p', hit))"
| "replace_first ids r (Program ns) =
     (case replace_first_list ids r ns of (ns', hit) \<Rightarrow> (Program ns', hit))"
| "replace_first ids r (JSXElement i nm attrs sc cs) =
     (if i \<in> set ids then (r, Some i)
      else
        (case replace_first_list ids r attrs of
           (attrs', Some j) \<Rightarrow> (JSXElement i nm attrs' sc cs, Some j)
         | (attrs', None) \<Rightarrow>
             (case replace_first_list ids r cs of
                (cs', hit) \<Rightarrow> (JSXElement i nm attrs sc cs', hit))))"
| "replace_first ids r (JSXAttribute nm v) =
     (case v of
        None \<Rightarrow> (JSXAttribute nm None, None)
      | Some x \<Rightarrow> (case replace_first ids r x of (x', hit) \<Rightarrow> (JSXAttribute nm (Some x'), hit)))"
| "replace_first ids r (StringLiteral s) = (StringLiteral s, None)"
| "replace_first ids r (JSXExpressionContainer e) =
     (case replace_first ids r e of (e', hit) \<Rightarrow> (JSXExpressionContainer e', hit))"
| "replace_first ids r (JSXText s) = (JSXText s, None)"
| "replace_first ids r (Identifier s) = (Identifier s, None)"
| "replace_first ids r (Other k ns) =
     (case replace_first_list ids r ns of (ns', hit) \<Rightarrow> (Other k ns', hit))"
| "replace_first_list ids r [] = ([], None)"
| "replace_first_list ids r (n # ns) =
     (case replace_first ids r n of
        (n', Some j) \<Rightarrow> (n' # ns, Some j)
      | (n', None) \<Rightarrow>
          (case replace_first_list ids r ns of (ns', hit) \<Rightarrow> (n # ns', hit)))"

text \<open>
  A candidate holds references to its example and its occurrences, not copies. When an
  element below the example has been replaced in the tree, the example shows it: the
  replacement writes into the child array of the parent object.
\<close>

definition mutate_inside :: "node \<Rightarrow> nat \<times> node \<Rightarrow> node" where
  "mutate_inside e hit =
     (case e of
        JSXElement i nm attrs sc cs \<Rightarrow>
          (case replace_first_list [fst hit] (snd hit) attrs of
             (attrs', Some j) \<Rightarrow> JSXElement i nm attrs' sc cs
           | (attrs', None) \<Rightarrow>
               JSXElement i nm attrs sc (fst (replace_first_list [fst hit] (snd hit) cs)))
      | _ \<Rightarrow> e)"

type_synonym component_info = "string \<times> nat \<times> string"

record rewrite_state =
  st_body :: "node list"
  st_fresh :: nat
  st_replaced :: "(nat \<times> node) list"
  st_components :: "component_info list"

text \<open>
  \<^verbatim>\<open>extractComponentDeclaration\<close>: a function declaration named as the candidate, with
  no parameters, whose body returns a clone of the example as it is now.
\<close>

definition extractComponentDeclaration :: "rewrite_state \<Rightarrow> ComponentCandidate \<Rightarrow> node" where
  "extractComponentDeclaration st candidate =
     Other ''FunctionDeclaration''
       [Identifier (suggestedName candidate),
        Other ''BlockStatement''
          [Other ''ReturnStatement''
             (case example candidate of
                None \<Rightarrow> []
              | Some e \<Rightarrow> [cloneNode (st_fresh st) (foldl mutate_inside e (st_replaced st))])]]"

definition occurrence_ids :: "ComponentCandidate \<Rightarrow> nat list" where
  "occurrence_ids candidate = List.map_filter node_id (occurrences candidate)"

text \<open>An event of the trace at which the traversal of the rewriter ends.\<close>

definition ends_replacing :: "nat list \<Rightarrow> (node \<times> node option) option \<Rightarrow> bool" where
  "ends_replacing ids e =
     (case e of
        None \<Rightarrow> True
      | Some path \<Rightarrow> (case node_id (fst path) of None \<Rightarrow> False | Some i \<Rightarrow> i \<in> set ids))"

text \<open>
  \<^verbatim>\<open>replaceOccurrencesWithComponent\<close> traverses the program inside a \<^verbatim>\<open>try\<close>. When the
  traversal throws before it has met an occurrence, the \<^verbatim>\<open>catch\<close> swallows the error and
  the program is as it was. Otherwise the first occurrence is replaced and the traversal
  stops.
\<close>

definition replaceOccurrencesWithComponent ::
  "babel \<Rightarrow> nat \<Rightarrow> node list \<Rightarrow> ComponentCandidate \<Rightarrow> node list \<times> nat option" where
  "replaceOccurrencesWithComponent B new ns candidate =
     (case find (ends_replacing (occurrence_ids candidate)) (trace B False None (Program ns)) of
        Some None \<Rightarrow> (ns, None)
      | _ \<Rightarrow>
          replace_first_list (occurrence_ids candidate)
            (JSXElement new (JSXIdentifier (suggestedName candidate)) [] True []) ns)"

text \<open>One turn of the loop of \<^verbatim>\<open>extractComponents\<close> over the candidates.\<close>

definition extract_step :: "babel \<Rightarrow> rewrite_state \<Rightarrow> ComponentCandidate \<Rightarrow> rewrite_state" where
  "extract_step B st candidate =
     (let decl = extractComponentDeclaration st candidate;
          new = st_fresh st + Suc (max_id decl);
          res = replaceOccurrencesWithComponent B new (decl # st_body st) candidate
      in \<lparr>st_body = fst res,
          st_fresh = Suc new,
          st_replaced =
            (case snd res of
               None \<Rightarrow> st_replaced st
             | Some j \<Rightarrow>
                 st_replaced st
                   @ [(j, JSXElement new (JSXIdentifier (suggestedName candidate)) [] True [])]),
          st_components =
            st_components st @ [(suggestedName candidate, count candidate, fingerprint candidate)]\<rparr>)"

record ExtractionResult =
  code :: string
  components :: "component_info list"
  changed :: bool

definition rewrite :: "babel \<Rightarrow> node list \<Rightarrow> ComponentCandidate list \<Rightarrow> rewrite_state" where
  "rewrite B ns candidates =
     foldl (extract_step B)
       \<lparr>st_body = ns, st_fresh = Suc (max_id (Program ns)), st_replaced = [], st_components = []\<rparr>
       candidates"

definition extractComponents ::
  "babel \<Rightarrow> string \<Rightarrow> ExtractorOptions \<Rightarrow> error + ExtractionResult" where
  "extractComponents B input options =
     (case parse B input of
        None \<Rightarrow> Inl SyntaxError
      | Some ns \<Rightarrow>
          (case findComponentCandidates B (File (Program ns)) options of
             Inl e \<Rightarrow> Inl e
           | Inr candidates \<Rightarrow>
               if length candidates = 0
               then Inr \<lparr>code = input, components = [], changed = False\<rparr>
               else
                 (let st = rewrite B ns candidates
                  in Inr \<lparr>code = generate B (File (Program (st_body st))),
                          components = st_components st,
                          changed = True\<rparr>)))"

section \<open>Notions used in the properties\<close>

text \<open>A path passes the early returns of the visitor.\<close>

definition accepted :: "opts \<Rightarrow> node \<times> node option \<Rightarrow> bool" where
  "accepted opts path =
     (\<not> shouldSkipTag (fst path) (opt_skipTags opts) \<and> \<not> isCustomComponent (fst path) \<and>
      (case snd path of None \<Rightarrow> False | Some p \<Rightarrow> \<not> shouldSkipTag p (opt_skipTags opts)))"

definition group_push :: "'v list jsmap \<Rightarrow> string \<Rightarrow> 'v \<Rightarrow> 'v list jsmap" where
  "group_push m k v = map_push (if \<not> map_has m k then map_set m k [] else m) k v"

definition first_seen :: "'a list \<Rightarrow> 'a list" where
  "first_seen ks = rev (remdups (rev ks))"

text \<open>The position at which a value first occurs in a list.\<close>

definition first_index :: "'a list \<Rightarrow> 'a \<Rightarrow> nat" where
  "first_index xs x = length (takeWhile (\<lambda>y. y \<noteq> x) xs)"

definition groups_of :: "(string \<times> 'v) list \<Rightarrow> 'v list jsmap" where
  "groups_of kvs =
     map (\<lambda>k. (k, map snd (filter (\<lambda>kv. fst kv = k) kvs))) (first_seen (map fst kvs))"

text \<open>
  The elements the visitor adds to the map, each with its fingerprint, in the order of
  the traversal.
\<close>

definition pushes :: "babel \<Rightarrow> opts \<Rightarrow> node \<Rightarrow> (string \<times> node) list" where
  "pushes B opts program =
     map (\<lambda>path. (computeTreeFingerprint B (fst path), fst path))
       (filter (accepted opts) (jsx_paths None program))"

text \<open>The invocation references and the declarations of a unit in a program.\<close>

fun is_reference :: "string \<Rightarrow> node \<Rightarrow> bool" where
  "is_reference name (JSXElement i nm attrs sc cs) =
     (nm = JSXIdentifier name \<and> attrs = [] \<and> sc \<and> cs = [])"
| "is_reference name _ = False"

definition count_references :: "string \<Rightarrow> node list \<Rightarrow> nat" where
  "count_references name ns =
     length (filter (\<lambda>path. is_reference name (fst path)) (jsx_paths None (Program ns)))"

fun is_declaration :: "string \<Rightarrow> node \<Rightarrow> bool" where
  "is_declaration name (Other k (Identifier s # rest)) = (k = ''FunctionDeclaration'' \<and> s = name)"
| "is_declaration name _ = False"

definition count_declarations :: "string \<Rightarrow> node list \<Rightarrow> nat" where
  "count_declarations name ns = length (filter (is_declaration name) ns)"

definition kept :: "babel \<Rightarrow> opts \<Rightarrow> node \<Rightarrow> string \<times> node list \<Rightarrow> bool" where
  "kept B opts program e =
     (\<not> int (length (snd e)) < opt_minRepeats opts \<and> \<not> wrapped_in_custom B program (snd e))"

text \<open>The results of a traversal that does not throw, before they are sorted.\<close>

definition unsorted_results :: "babel \<Rightarrow> node \<Rightarrow> ExtractorOptions \<Rightarrow> ComponentCandidate list" where
  "unsorted_results B ast options =
     collect_results B (spread DEFAULT_OPTIONS options) (program_of ast)
       (foldl (visit_JSXElement B (spread DEFAULT_OPTIONS options)) []
          (jsx_paths None (program_of ast))) 0"

text \<open>The name a function declaration declares.\<close>

fun declaration_name :: "node \<Rightarrow> string option" where
  "declaration_name (Other k (Identifier s # rest)) =
     (if k = ''FunctionDeclaration'' then Some s else None)"
| "declaration_name _ = None"

text \<open>Uppercasing, in the ASCII range, to speak of tag names that differ in case only.\<close>

definition toUpperChar :: "char \<Rightarrow> char" where
  "toUpperChar c =
     (if 97 \<le> (of_char c :: nat) \<and> (of_char c :: nat) \<le> 122
      then char_of ((of_char c :: nat) - 32) else c)"

definition toUpperCase :: "string \<Rightarrow> string" where
  "toUpperCase s = map toUpperChar s"

definition discovery :: "babel \<Rightarrow> node \<Rightarrow> ExtractorOptions \<Rightarrow> string list" where
  "discovery B ast options =
     map fst (pushes B (spread DEFAULT_OPTIONS options) (program_of ast))"

definition component_info_of :: "ComponentCandidate \<Rightarrow> component_info" where
  "component_info_of c = (suggestedName c, count c, fingerprint c)"

definition returned_code :: "error + ExtractionResult \<Rightarrow> string option" where
  "returned_code res = (case res of Inl e \<Rightarrow> None | Inr r \<Rightarrow> Some (code r))"

text \<open>The occurrences of the groups that a call returns, when it returns.\<close>

definition returned_occurrences :: "error + ComponentCandidate list \<Rightarrow> node list list option" where
  "returned_occurrences res = (case res of Inl e \<Rightarrow> None | Inr cs \<Rightarrow> Some (map occurrences cs))"

definition count_in :: "(node \<Rightarrow> bool) \<Rightarrow> node \<Rightarrow> nat" where
  "count_in P n = length (filter (\<lambda>path. P (fst path)) (jsx_paths None n))"

definition count_in_list :: "(node \<Rightarrow> bool) \<Rightarrow> node list \<Rightarrow> nat" where
  "count_in_list P ns = length (filter (\<lambda>path. P (fst path)) (concat (map (jsx_paths None) ns)))"

section \<open>Example inputs\<close>

definition el :: "nat \<Rightarrow> string \<Rightarrow> node list \<Rightarrow> node" where
  "el i t cs = JSXElement i (JSXIdentifier t) [] False cs"

definition leaf :: "nat \<Rightarrow> string \<Rightarrow> node" where
  "leaf i t = JSXElement i (JSXIdentifier t) [] True []"

definition stmt :: "node \<Rightarrow> node" where
  "stmt e = Other ''ExpressionStatement'' [e]"

definition no_options :: ExtractorOptions where
  "no_options = \<lparr>minRepeats = None, componentNameBase = None, skipTags = None\<rparr>"

text \<open>\<^verbatim>\<open><div><p>A</p><p>B</p></div>\<close>\<close>

definition ex_pair :: "node list" where
  "ex_pair = [stmt (el 0 ''div'' [el 1 ''p'' [JSXText ''A''], el 2 ''p'' [JSXText ''B'']])]"

text \<open>\<^verbatim>\<open><Foo><div><p/><p/></div></Foo>\<close>\<close>

definition ex_grandparent :: "node list" where
  "ex_grandparent = [stmt (el 0 ''Foo'' [el 1 ''div'' [leaf 2 ''p'', leaf 3 ''p'']])]"

text \<open>\<^verbatim>\<open><div><p/><Foo><p/></Foo><span/><span/></div>\<close>\<close>

definition ex_wrapped :: "node list" where
  "ex_wrapped =
     [stmt (el 0 ''div'' [leaf 1 ''p'', el 2 ''Foo'' [leaf 3 ''p''], leaf 4 ''span'', leaf 5 ''span''])]"

definition wrapped_candidate :: ComponentCandidate where
  "wrapped_candidate =
     \<lparr>fingerprint = ''span:0:0:'',
      occurrences = [leaf 4 ''span'', leaf 5 ''span''],
      example = Some (leaf 4 ''span''),
      count = 2,
      suggestedName = ''Extracted1''\<rparr>"

text \<open>\<^verbatim>\<open><section><div><span/></div><div><span/></div></section>\<close>\<close>

definition ex_nested :: "node list" where
  "ex_nested =
     [stmt (el 0 ''section'' [el 1 ''div'' [leaf 2 ''span''], el 3 ''div'' [leaf 4 ''span'']])]"

text \<open>\<^verbatim>\<open><div><p>A</p><span/><span/><span/><p>B</p></div>\<close>\<close>

definition ex_order :: "node list" where
  "ex_order =
     [stmt (el 0 ''div''
        [el 1 ''p'' [JSXText ''A''], leaf 2 ''span'', leaf 3 ''span'', leaf 4 ''span'',
         el 5 ''p'' [JSXText ''B'']])]"

text \<open>\<^verbatim>\<open><g><clipPath/><clipPath/></g>\<close>, with \<^verbatim>\<open>skipTags: new Set(["clipPath"])\<close>\<close>

definition ex_clip :: "node list" where
  "ex_clip = [stmt (el 0 ''g'' [leaf 1 ''clipPath'', leaf 2 ''clipPath''])]"

definition clip_options :: ExtractorOptions where
  "clip_options = \<lparr>minRepeats = None, componentNameBase = None, skipTags = Some {''clipPath''}\<rparr>"

text \<open>\<^verbatim>\<open><div>\<close>, ten times \<^verbatim>\<open><path/>\<close>, \<^verbatim>\<open></div>\<close>\<close>

definition ex_paths :: "node list" where
  "ex_paths = [stmt (el 0 ''div'' (map (\<lambda>i. leaf i ''path'') [1..<11]))]"

text \<open>\<^verbatim>\<open><div><Foo.Bar/><Foo.Bar/><p>A</p><p>B</p></div>\<close>\<close>

definition foo_bar :: "nat \<Rightarrow> node" where
  "foo_bar i = JSXElement i (JSXMemberExpression (JSXIdentifier ''Foo'') ''Bar'') [] True []"

definition ex_member :: "node list" where
  "ex_member =
     [stmt (el 0 ''div'' [foo_bar 1, foo_bar 2, el 3 ''p'' [JSXText ''A''], el 4 ''p'' [JSXText ''B'']])]"

definition member_candidate :: ComponentCandidate where
  "member_candidate =
     \<lparr>fingerprint = ''p:0:1:'',
      occurrences = [el 3 ''p'' [JSXText ''A''], el 4 ''p'' [JSXText ''B'']],
      example = Some (el 3 ''p'' [JSXText ''A'']),
      count = 2,
      suggestedName = ''Extracted1''\<rparr>"

text \<open>\<^verbatim>\<open><div><path/><p>A</p><p>B</p></div>\<close>\<close>

definition ex_skip :: "node list" where
  "ex_skip = [stmt (el 0 ''div'' [leaf 1 ''path'', el 2 ''p'' [JSXText ''A''], el 3 ''p'' [JSXText ''B'']])]"

definition skip_candidate :: ComponentCandidate where
  "skip_candidate =
     \<lparr>fingerprint = ''p:0:1:'',
      occurrences = [el 2 ''p'' [JSXText ''A''], el 3 ''p'' [JSXText ''B'']],
      example = Some (el 2 ''p'' [JSXText ''A'']),
      count = 2,
      suggestedName = ''Extracted1''\<rparr>"

text \<open>\<^verbatim>\<open>function C() { return <i>x</i>; }\<close>\<close>

definition ex_function :: "node list" where
  "ex_function =
     [Other ''FunctionDeclaration''
        [Identifier ''C'',
         Other ''BlockStatement'' [Other ''ReturnStatement'' [el 0 ''i'' [JSXText ''x'']]]]]"

text \<open>\<^verbatim>\<open><div><clipPath/><clipPath/><p>A</p><p>B</p></div>\<close>\<close>

definition ex_case :: "node list" where
  "ex_case =
     [stmt (el 0 ''div'' [leaf 1 ''clipPath'', leaf 2 ''clipPath'',
                          el 3 ''p'' [JSXText ''A''], el 4 ''p'' [JSXText ''B'']])]"

definition pair_candidate :: ComponentCandidate where
  "pair_candidate =
     \<lparr>fingerprint = ''p:0:1:'',
      occurrences = [el 1 ''p'' [JSXText ''A''], el 2 ''p'' [JSXText ''B'']],
      example = Some (el 1 ''p'' [JSXText ''A'']),
      count = 2,
      suggestedName = ''Extracted1''\<rparr>"

definition order_candidates :: "ComponentCandidate list" where
  "order_candidates =
     [\<lparr>fingerprint = ''span:0:0:'',
       occurrences = [leaf 2 ''span'', leaf 3 ''span'', leaf 4 ''span''],
       example = Some (leaf 2 ''span''),
       count = 3,
       suggestedName = ''Extracted2''\<rparr>,
      \<lparr>fingerprint = ''p:0:1:'',
       occurrences = [el 1 ''p'' [JSXText ''A''], el 5 ''p'' [JSXText ''B'']],
       example = Some (el 1 ''p'' [JSXText ''A'']),
       count = 2,
       suggestedName = ''Extracted1''\<rparr>]"

text \<open>A parser that knows these inputs and rejects any other text, and a generator.\<close>

definition parse0 :: "string \<Rightarrow> node list option" where
  "parse0 input =
     (if input = ''<div><p>A</p><p>B</p></div>'' then Some ex_pair
      else if input = ''<div><p>A</p><span/><span/><span/><p>B</p></div>'' then Some ex_order
      else if input = ''<div><path/><path/><path/><path/><path/><path/><path/><path/><path/><path/></div>''
        then Some ex_paths
      else if input = ''<i>x</i>'' then Some [stmt (el 0 ''i'' [JSXText ''x''])]
      else if input = ''function C() { return <i>x</i>; }'' then Some ex_function
      else if input = ''<div><clipPath/><clipPath/><p>A</p><p>B</p></div>'' then Some ex_case
      else None)"

definition babel0 :: babel where
  "babel0 = \<lparr>parse = parse0, generate = (\<lambda>n. ''{}''), crawl_fails = (\<lambda>n. False)\<rparr>"

section \<open>Properties\<close>

subsection \<open>The map groups by fingerprint, in the order of discovery\<close>

lemma visit_JSXElement_accepted:
  "visit_JSXElement B opts m path =
     (if accepted opts path then group_push m (computeTreeFingerprint B (fst path)) (fst path) else m)"
  by (auto simp: visit_JSXElement_def accepted_def group_push_def Let_def split: option.splits)

lemma first_seen_snoc:
  "first_seen (ks @ [k]) = (if k \<in> set ks then first_seen ks else first_seen ks @ [k])"
  by (simp add: first_seen_def)

lemma set_first_seen [simp]: "set (first_seen ks) = set ks"
  by (simp add: first_seen_def)

lemma distinct_first_seen [simp]: "distinct (first_seen ks)"
  by (simp add: first_seen_def)

lemma map_push_present:
  "distinct KS \<Longrightarrow> k \<in> set KS \<Longrightarrow>
   map_push (map (\<lambda>x. (x, F x)) KS) k v = map (\<lambda>x. (x, if x = k then F x @ [v] else F x)) KS"
proof (induction KS)
  case Nil
  then show ?case by simp
next
  case (Cons a KS)
  show ?case
  proof (cases "a = k")
    case True
    with Cons.prems have "k \<notin> set KS" by simp
    then have "map (\<lambda>x. (x, if x = k then F x @ [v] else F x)) KS = map (\<lambda>x. (x, F x)) KS"
      by (intro map_cong) auto
    with True show ?thesis by simp
  next
    case False
    with Cons show ?thesis by simp
  qed
qed

lemma map_set_absent:
  "k \<notin> fst ` set m \<Longrightarrow> map_set m k v = m @ [(k, v)]"
  by (induction m) auto

lemma map_push_snoc:
  "k \<notin> fst ` set m \<Longrightarrow> map_push (m @ [(k, vs)]) k v = m @ [(k, vs @ [v])]"
  by (induction m) auto

lemma group_push_present:
  "distinct KS \<Longrightarrow> k \<in> set KS \<Longrightarrow>
   group_push (map (\<lambda>x. (x, F x)) KS) k v = map (\<lambda>x. (x, if x = k then F x @ [v] else F x)) KS"
  by (simp add: group_push_def map_has_def image_image map_push_present)

lemma group_push_absent:
  "k \<notin> set KS \<Longrightarrow>
   group_push (map (\<lambda>x. (x, F x)) KS) k v = map (\<lambda>x. (x, F x)) KS @ [(k, [v])]"
  by (simp add: group_push_def map_has_def image_image map_set_absent map_push_snoc)

lemma groups_of_snoc:
  "groups_of (kvs @ [(k, v)]) = group_push (groups_of kvs) k v"
proof (cases "k \<in> fst ` set kvs")
  case True
  have "groups_of (kvs @ [(k, v)]) =
        map (\<lambda>x. (x, if x = k then map snd (filter (\<lambda>kv. fst kv = x) kvs) @ [v]
                      else map snd (filter (\<lambda>kv. fst kv = x) kvs))) (first_seen (map fst kvs))"
    using True by (auto simp: groups_of_def first_seen_snoc)
  also have "\<dots> = group_push (groups_of kvs) k v"
    unfolding groups_of_def using True
    by (subst group_push_present) auto
  finally show ?thesis .
next
  case False
  then have nil: "filter (\<lambda>kv. fst kv = k) kvs = []"
    by (auto simp: filter_empty_conv)
  have "groups_of (kvs @ [(k, v)]) = groups_of kvs @ [(k, [v])]"
    using False nil by (auto simp: groups_of_def first_seen_snoc)
  also have "\<dots> = group_push (groups_of kvs) k v"
    unfolding groups_of_def using False
    by (subst group_push_absent) auto
  finally show ?thesis .
qed

lemma foldl_group_push:
  "foldl (\<lambda>m kv. group_push m (fst kv) (snd kv)) [] kvs = groups_of kvs"
proof (induction kvs rule: rev_induct)
  case Nil
  show ?case by (simp add: groups_of_def first_seen_def)
next
  case (snoc kv kvs)
  then show ?case by (cases kv) (simp add: groups_of_snoc)
qed

lemma foldl_visit:
  "foldl (visit_JSXElement B opts) m paths =
   foldl (\<lambda>m kv. group_push m (fst kv) (snd kv)) m
     (map (\<lambda>path. (computeTreeFingerprint B (fst path), fst path)) (filter (accepted opts) paths))"
  by (induction paths arbitrary: m) (simp_all add: visit_JSXElement_accepted)

lemma candidate_map_groups:
  "foldl (visit_JSXElement B opts) [] (jsx_paths None program) = groups_of (pushes B opts program)"
  by (simp add: pushes_def foldl_visit foldl_group_push)

lemma first_index_snoc:
  "x \<in> set xs \<Longrightarrow> first_index (xs @ [y]) x = first_index xs x"
  by (simp add: first_index_def takeWhile_append1)

lemma first_index_less:
  "x \<in> set xs \<Longrightarrow> first_index xs x < length xs"
  unfolding first_index_def by (induction xs) auto

lemma first_index_new:
  "y \<notin> set xs \<Longrightarrow> first_index (xs @ [y]) y = length xs"
  unfolding first_index_def by (induction xs) auto

lemma first_seen_sorted:
  "sorted_wrt (\<lambda>a b. first_index ks a < first_index ks b) (first_seen ks)"
proof (induction ks rule: rev_induct)
  case Nil
  show ?case by (simp add: first_seen_def)
next
  case (snoc k ks)
  have mono: "sorted_wrt (\<lambda>a b. first_index (ks @ [k]) a < first_index (ks @ [k]) b) (first_seen ks)"
    using snoc by (rule sorted_wrt_mono_rel[rotated]) (simp add: first_index_snoc)
  show ?case
  proof (cases "k \<in> set ks")
    case True
    with mono show ?thesis by (simp add: first_seen_snoc)
  next
    case False
    with mono show ?thesis
      by (auto simp: first_seen_snoc sorted_wrt_append first_index_snoc first_index_new first_index_less)
  qed
qed

lemma collect_results_entries:
  "map (\<lambda>c. (fingerprint c, occurrences c)) (collect_results B opts program m k)
     = filter (kept B opts program) m"
  by (induction B opts program m k rule: collect_results.induct) (simp_all add: kept_def)

lemma collect_results_count:
  "c \<in> set (collect_results B opts program m k) \<Longrightarrow> count c = length (occurrences c)"
  by (induction B opts program m k rule: collect_results.induct) (auto split: if_splits)

lemma collect_results_names:
  "map suggestedName (collect_results B opts program m k)
     = map (\<lambda>i. opt_componentNameBase opts @ decimal (Suc i))
         [k ..< k + length (collect_results B opts program m k)]"
proof (induction B opts program m k rule: collect_results.induct)
  case (1 B opts program componentCounter)
  show ?case by simp
next
  case (2 B opts program fp occs rest k)
  show ?case
  proof (cases "kept B opts program (fp, occs)")
    case False
    with 2 show ?thesis by (auto simp: kept_def)
  next
    case True
    then have a: "\<not> int (length occs) < opt_minRepeats opts" and b: "\<not> wrapped_in_custom B program occs"
      by (simp_all add: kept_def)
    let ?r = "collect_results B opts program rest (Suc k)"
    have "k < k + Suc (length ?r)" by simp
    from upt_conv_Cons[OF this]
    have "[k ..< k + Suc (length ?r)] = k # [Suc k ..< Suc k + length ?r]"
      by (simp del: upt_Suc)
    moreover have "collect_results B opts program ((fp, occs) # rest) k
        = \<lparr>fingerprint = fp, occurrences = occs,
            example = (case occs of [] \<Rightarrow> None | e # _ \<Rightarrow> Some e),
            count = length occs,
            suggestedName = opt_componentNameBase opts @ decimal (Suc k)\<rparr> # ?r"
      using a b by simp
    ultimately show ?thesis using 2(3)[OF a b] by (simp del: upt_Suc collect_results.simps)
  qed
qed

lemma collect_results_fingerprints:
  "map fingerprint (collect_results B opts program m k) = map fst (filter (kept B opts program) m)"
proof -
  have "map fingerprint (collect_results B opts program m k)
        = map fst (map (\<lambda>c. (fingerprint c, occurrences c)) (collect_results B opts program m k))"
    by (simp add: comp_def)
  then show ?thesis by (simp only: collect_results_entries)
qed

lemma groups_of_member:
  "(fp, occs) \<in> set (groups_of kvs) \<Longrightarrow>
     occs = map snd (filter (\<lambda>kv. fst kv = fp) kvs) \<and> fp \<in> fst ` set kvs"
  by (auto simp: groups_of_def)

lemma groups_of_keys: "map fst (groups_of kvs) = first_seen (map fst kvs)"
  by (simp add: groups_of_def comp_def)

lemma stable_sort_lex:
  assumes "sorted_wrt R xs"
  shows "sorted_wrt (\<lambda>a b. f a < f b \<or> (f a = f b \<and> R a b)) (sort_key f xs)"
  using assms
proof (induction xs)
  case Nil
  show ?case by simp
next
  case (Cons x xs)
  let ?L = "\<lambda>a b. f a < f b \<or> (f a = f b \<and> R a b)"
  have ins: "sorted_wrt ?L (insort_key f x ys)"
    if "sorted_wrt ?L ys" and "\<forall>y\<in>set ys. R x y" for ys
    using that
  proof (induction ys)
    case Nil
    show ?case by simp
  next
    case (Cons y ys)
    show ?case
    proof (cases "f x \<le> f y")
      case True
      have "?L x z" if "z \<in> set (y # ys)" for z
      proof -
        have "f y \<le> f z" using Cons.prems(1) that by auto
        with True have "f x \<le> f z" by simp
        moreover have "R x z" using Cons.prems(2) that by auto
        ultimately show ?thesis by auto
      qed
      with True Cons.prems(1) show ?thesis by simp
    next
      case False
      then have yx: "f y < f x" by (simp add: not_le)
      have tl: "sorted_wrt ?L (insort_key f x ys)"
        using Cons by simp
      have "?L y z" if "z \<in> set (insort_key f x ys)" for z
        using that yx Cons.prems(1) by (auto simp: set_insort_key)
      with False tl show ?thesis by simp
    qed
  qed
  from Cons have "sorted_wrt ?L (sort_key f xs)" and "\<forall>y\<in>set (sort_key f xs). R x y"
    by auto
  then show ?case using ins by simp
qed

lemma unsorted_results_discovery:
  "sorted_wrt (\<lambda>a b. first_index (discovery B ast options) (fingerprint a)
                     < first_index (discovery B ast options) (fingerprint b))
     (unsorted_results B ast options)"
proof -
  let ?opts = "spread DEFAULT_OPTIONS options"
  let ?prog = "program_of ast"
  let ?D = "discovery B ast options"
  let ?m = "groups_of (pushes B ?opts ?prog)"
  have "sorted_wrt (\<lambda>a b. first_index ?D a < first_index ?D b) (map fst ?m)"
    by (simp only: groups_of_keys discovery_def first_seen_sorted)
  then have "sorted_wrt (\<lambda>x y. first_index ?D (fst x) < first_index ?D (fst y)) ?m"
    by (simp only: sorted_wrt_map)
  then have "sorted_wrt (\<lambda>x y. first_index ?D (fst x) < first_index ?D (fst y))
               (filter (kept B ?opts ?prog) ?m)"
    by (rule sorted_wrt_filter)
  then have "sorted_wrt (\<lambda>a b. first_index ?D a < first_index ?D b)
               (map fst (filter (kept B ?opts ?prog) ?m))"
    by (simp only: sorted_wrt_map)
  then have "sorted_wrt (\<lambda>a b. first_index ?D a < first_index ?D b)
               (map fingerprint (unsorted_results B ast options))"
    by (simp only: unsorted_results_def collect_results_fingerprints candidate_map_groups)
  then show ?thesis by (simp only: sorted_wrt_map)
qed

lemma foldl_extract_step_components:
  "st_components (foldl (extract_step B) st cs) = st_components st @ map component_info_of cs"
  by (induction cs arbitrary: st) (simp_all add: extract_step_def Let_def component_info_of_def)

lemma rewrite_components: "st_components (rewrite B ns cs) = map component_info_of cs"
  by (simp add: rewrite_def foldl_extract_step_components)

lemma sort_key_restores:
  assumes "sorted_wrt (\<lambda>a b. g a < g b) xs" and "mset ys = mset xs"
  shows "sort_key (g :: 'a \<Rightarrow> nat) ys = xs"
proof (rule properties_for_sort_key)
  show "mset xs = mset ys" using assms(2) by simp
  have smap: "sorted_wrt (<) (map g xs)" using assms(1) by (simp add: sorted_wrt_map)
  then show "sorted (map g xs)" by (rule strict_sorted_imp_sorted)
  have dm: "distinct (map g xs)" using smap by (simp add: strict_sorted_iff)
  then have inj: "inj_on g (set xs)" and dx: "distinct xs" by (simp_all add: distinct_map)
  have dy: "distinct ys" using dx assms(2) by (metis mset_eq_imp_distinct_iff)
  have sy: "set ys = set xs" using assms(2) by (rule mset_eq_setD)
  fix k assume k: "k \<in> set xs"
  have "filter (\<lambda>x. g k = g x) zs = filter (\<lambda>x. k = x) zs" if "set zs = set xs" for zs
    using that inj k by (intro filter_cong) (auto dest: inj_onD)
  moreover have "filter (\<lambda>x. k = x) zs = [k]" if "distinct zs" "k \<in> set zs" for zs :: "'a list"
    using that by (induction zs) (auto simp: filter_empty_conv)
  ultimately show "filter (\<lambda>x. g k = g x) xs = filter (\<lambda>x. g k = g x) ys"
    using dx dy sy k by simp
qed

lemma jsx_paths_elements:
  "path \<in> set (jsx_paths par root) \<Longrightarrow> \<exists>i nm attrs sc cs. fst path = JSXElement i nm attrs sc cs"
  by (induction par root rule: jsx_paths.induct) (auto split: option.splits)

lemma find_distinct:
  assumes "distinct (map f xs)" and "x \<in> set xs" and "\<And>y. y \<in> set xs \<Longrightarrow> P y = (f y = f x)"
  shows "find P xs = Some x"
  using assms by (induction xs) (auto simp: image_iff)

lemma unsorted_results_member:
  assumes "c \<in> set (unsorted_results B ast options)"
  shows "(fingerprint c, occurrences c)
           \<in> set (groups_of (pushes B (spread DEFAULT_OPTIONS options) (program_of ast)))
         \<and> kept B (spread DEFAULT_OPTIONS options) (program_of ast) (fingerprint c, occurrences c)"
proof -
  let ?opts = "spread DEFAULT_OPTIONS options"
  let ?m = "groups_of (pushes B ?opts (program_of ast))"
  have "(fingerprint c, occurrences c)
          \<in> set (map (\<lambda>c. (fingerprint c, occurrences c)) (unsorted_results B ast options))"
    using assms by force
  then have "(fingerprint c, occurrences c) \<in> set (filter (kept B ?opts (program_of ast)) ?m)"
    by (simp only: unsorted_results_def collect_results_entries candidate_map_groups)
  then show ?thesis by simp
qed

lemma occurrence_origin:
  assumes "c \<in> set (unsorted_results B ast options)" and "n \<in> set (occurrences c)"
  shows "\<exists>par. (n, par) \<in> set (jsx_paths None (program_of ast))
           \<and> accepted (spread DEFAULT_OPTIONS options) (n, par)
           \<and> fingerprint c = computeTreeFingerprint B n"
proof -
  let ?opts = "spread DEFAULT_OPTIONS options"
  let ?P = "pushes B ?opts (program_of ast)"
  have "(fingerprint c, occurrences c) \<in> set (groups_of ?P)"
    using assms(1) unsorted_results_member by simp
  then have "occurrences c = map snd (filter (\<lambda>kv. fst kv = fingerprint c) ?P)"
    using groups_of_member by blast
  with assms(2) have "(fingerprint c, n) \<in> set ?P" by auto
  then show ?thesis by (auto simp: pushes_def)
qed

lemma accepted_parent:
  "accepted opts (n, par) \<Longrightarrow>
     \<exists>p. par = Some p \<and> \<not> shouldSkipTag p (opt_skipTags opts) \<and> \<not> shouldSkipTag n (opt_skipTags opts)
        \<and> \<not> isCustomComponent n"
  by (auto simp: accepted_def split: option.splits)

lemma shouldSkipTag_iff:
  "shouldSkipTag n skip = (case getTagName n of None \<Rightarrow> True | Some t \<Rightarrow> t = [] \<or> toLowerCase t \<in> skip)"
  by (auto simp: shouldSkipTag_def split: option.splits)

lemma not_shouldSkipTag:
  "\<not> shouldSkipTag n skip \<Longrightarrow> \<exists>t. getTagName n = Some t \<and> t \<noteq> [] \<and> toLowerCase t \<notin> skip"
  by (auto simp: shouldSkipTag_def split: option.splits if_splits)

lemma no_pushes_no_candidates:
  assumes "pushes B (spread DEFAULT_OPTIONS options) (program_of ast) = []"
  shows "unsorted_results B ast options = []"
  using assms
  by (simp add: unsorted_results_def candidate_map_groups groups_of_def first_seen_def)

lemma extractComponents_no_candidates:
  assumes "parse B input = Some ns"
    and "findComponentCandidates B (File (Program ns)) options = Inr []"
  shows "extractComponents B input options = Inr \<lparr>code = input, components = [], changed = False\<rparr>"
  using assms by (simp add: extractComponents_def)

lemma program_of_File [simp]: "program_of (File p) = p"
  by (simp add: program_of_def)

lemma jsx_paths_leaves:
  "concat (map (jsx_paths par) (map (\<lambda>i. JSXElement i nm [] sc []) ids))
     = map (\<lambda>i. (JSXElement i nm [] sc [], par)) ids"
  by (induction ids) simp_all

lemma below_threshold_no_candidates:
  assumes "\<And>fp. int (length (filter (\<lambda>path. computeTreeFingerprint B (fst path) = fp)
                  (jsx_paths None (program_of ast)))) < opt_minRepeats (spread DEFAULT_OPTIONS options)"
  shows "unsorted_results B ast options = []"
proof -
  let ?opts = "spread DEFAULT_OPTIONS options"
  let ?prog = "program_of ast"
  let ?P = "pushes B ?opts ?prog"
  have "\<not> kept B ?opts ?prog e" if "e \<in> set (groups_of ?P)" for e
  proof -
    obtain fp occs where e: "e = (fp, occs)" by (cases e)
    with that have "occs = map snd (filter (\<lambda>kv. fst kv = fp) ?P)"
      using groups_of_member by blast
    then have "length occs
        = length (filter (\<lambda>path. computeTreeFingerprint B (fst path) = fp)
            (filter (accepted ?opts) (jsx_paths None ?prog)))"
      by (simp add: pushes_def filter_map comp_def)
    also have "\<dots> = length (filter (accepted ?opts)
            (filter (\<lambda>path. computeTreeFingerprint B (fst path) = fp) (jsx_paths None ?prog)))"
      by (simp add: conj_commute)
    also have "\<dots> \<le> length (filter (\<lambda>path. computeTreeFingerprint B (fst path) = fp)
            (jsx_paths None ?prog))"
      by (rule length_filter_le)
    finally show ?thesis using assms[of fp] e by (simp add: kept_def)
  qed
  then have "filter (kept B ?opts ?prog) (groups_of ?P) = []"
    by (simp add: filter_empty_conv)
  then have "map (\<lambda>c. (fingerprint c, occurrences c)) (unsorted_results B ast options) = []"
    by (simp only: unsorted_results_def collect_results_entries candidate_map_groups)
  then show ?thesis by simp
qed

subsection \<open>Traversals that throw\<close>

lemma trace_complete:
  "None \<notin> set (trace B scoped par n) \<Longrightarrow> trace B scoped par n = map Some (jsx_paths par n)"
proof (induction B scoped par n rule: trace.induct)
  case (2 B scoped par body)
  then have "trace B scoped None x = map Some (jsx_paths None x)" if "x \<in> set body" for x
    using that by auto
  then have h: "map (trace B scoped None) body = map (\<lambda>x. map Some (jsx_paths None x)) body"
    by (intro map_cong) simp_all
  show ?case unfolding trace.simps jsx_paths.simps h by (simp add: map_concat comp_def)
next
  case (3 B scoped par i nm attrs sc cs)
  let ?e = "JSXElement i nm attrs sc cs"
  from 3 have "trace B scoped None x = map Some (jsx_paths None x)" if "x \<in> set attrs" for x
    using that by auto
  then have a: "map (trace B scoped None) attrs = map (\<lambda>x. map Some (jsx_paths None x)) attrs"
    by (intro map_cong) simp_all
  from 3 have "trace B scoped (Some ?e) x = map Some (jsx_paths (Some ?e) x)" if "x \<in> set cs" for x
    using that by auto
  then have c: "map (trace B scoped (Some ?e)) cs = map (\<lambda>x. map Some (jsx_paths (Some ?e) x)) cs"
    by (intro map_cong) simp_all
  show ?case unfolding trace.simps jsx_paths.simps a c by (simp add: map_concat comp_def)
next
  case (4 B scoped par nm v)
  then show ?case by (cases v) simp_all
next
  case (9 B scoped par k ns)
  then have no: "\<not> enter_throws B scoped k ns" by (auto split: if_splits)
  with 9 have "trace B (scoped \<or> k \<in> scope_types) None x = map Some (jsx_paths None x)"
    if "x \<in> set ns" for x
    using that by auto
  then have h: "map (trace B (scoped \<or> k \<in> scope_types) None) ns
           = map (\<lambda>x. map Some (jsx_paths None x)) ns"
    by (intro map_cong) simp_all
  show ?case unfolding trace.simps jsx_paths.simps h using no by (simp add: map_concat comp_def)
qed simp_all

lemma trace_no_throw:
  "\<not> traverse_throws B root \<Longrightarrow> trace B False None root = map Some (jsx_paths None root)"
  by (simp add: traverse_throws_def trace_complete)

lemma map_filter_Some: "List.map_filter (\<lambda>e. e) (map Some xs) = xs"
  by (induction xs) (simp_all add: List.map_filter_simps)

lemma collect_candidates_Inr:
  "\<not> traverse_throws B program \<Longrightarrow>
     collect_candidates B opts program = Inr (groups_of (pushes B opts program))"
  by (simp add: collect_candidates_def trace_no_throw map_filter_Some candidate_map_groups)

lemma collect_candidates_Inl:
  "traverse_throws B program \<Longrightarrow> collect_candidates B opts program = Inl TypeError"
  by (simp add: collect_candidates_def)

lemma findComponentCandidates_throws:
  "traverse_throws B (program_of ast) \<Longrightarrow> findComponentCandidates B ast options = Inl TypeError"
  by (simp add: findComponentCandidates_def Let_def collect_candidates_Inl)

lemma findComponentCandidates_returns:
  "\<not> traverse_throws B (program_of ast) \<Longrightarrow>
     findComponentCandidates B ast options
       = Inr (sort_key (\<lambda>c. - int (count c)) (unsorted_results B ast options))"
  by (simp add: findComponentCandidates_def Let_def collect_candidates_Inr unsorted_results_def
      candidate_map_groups)

lemma findComponentCandidates_Inr:
  assumes "findComponentCandidates B ast options = Inr cs"
  shows "\<not> traverse_throws B (program_of ast)"
    and "cs = sort_key (\<lambda>c. - int (count c)) (unsorted_results B ast options)"
    and "set cs = set (unsorted_results B ast options)"
proof -
  show no: "\<not> traverse_throws B (program_of ast)"
    using assms findComponentCandidates_throws[of B ast options] by auto
  from findComponentCandidates_returns[OF no, of options] assms
  show eq: "cs = sort_key (\<lambda>c. - int (count c)) (unsorted_results B ast options)" by simp
  then show "set cs = set (unsorted_results B ast options)" by simp
qed

lemma find_Some_map:
  "find P (map Some xs) = map_option Some (find (\<lambda>x. P (Some x)) xs)"
  by (induction xs) simp_all

lemma findParentPath_in:
  assumes "\<not> traverse_throws B program" and "distinct_nodes program"
    and "(n, par) \<in> set (jsx_paths None program)"
  shows "findParentPath B n program = par"
proof -
  obtain i nm attrs sc cs where n: "n = JSXElement i nm attrs sc cs"
    using jsx_paths_elements[OF assms(3)] by auto
  have "same_node (fst y) n = (node_id (fst y) = node_id (fst (n, par)))"
    if "y \<in> set (jsx_paths None program)" for y
    using jsx_paths_elements[OF that] n by auto
  with assms(2,3)
  have "find (\<lambda>path. same_node (fst path) n) (jsx_paths None program) = Some (n, par)"
    unfolding distinct_nodes_def by (intro find_distinct) auto
  then show ?thesis
    by (simp add: findParentPath_def trace_no_throw[OF assms(1)] find_Some_map)
qed

lemma paths_unique:
  assumes "distinct_nodes program"
    and "(n, par) \<in> set (jsx_paths None program)" and "(n, par') \<in> set (jsx_paths None program)"
  shows "par = par'"
proof -
  have "inj_on (\<lambda>path. node_id (fst path)) (set (jsx_paths None program))"
    using assms(1) by (simp add: distinct_nodes_def distinct_map)
  from inj_onD[OF this _ assms(2,3)] show ?thesis by simp
qed

lemma kept_not_wrapped:
  assumes "\<not> traverse_throws B program" and "distinct_nodes program"
    and "\<not> wrapped_in_custom B program occs"
    and "n \<in> set occs" and "(n, Some p) \<in> set (jsx_paths None program)"
  shows "\<not> isCustomComponent p"
proof -
  have "findParentPath B n program = Some p" using assms(1,2,5) by (rule findParentPath_in)
  with assms(3,4) show ?thesis by (auto simp: wrapped_in_custom_def list_ex_iff)
qed

lemma extractComponents_throws:
  assumes "parse B input = Some ns" and "traverse_throws B (Program ns)"
  shows "extractComponents B input options = Inl TypeError"
  using assms by (simp add: extractComponents_def findComponentCandidates_throws)

subsection \<open>The rewriter inside \<open>extractComponents\<close>\<close>

lemma declaration_throws:
  "find (ends_replacing ids) (trace B False None (Program (Other ''FunctionDeclaration'' xs # ns)))
     = Some None"
  by (simp add: enter_throws_def ends_replacing_def)

lemma replaceOccurrences_after_unshift:
  "replaceOccurrencesWithComponent B new (extractComponentDeclaration st c # ns) c
     = (extractComponentDeclaration st c # ns, None)"
  by (simp only: replaceOccurrencesWithComponent_def extractComponentDeclaration_def
      declaration_throws option.case)

lemma extract_step_body:
  "st_body (extract_step B st c) = extractComponentDeclaration st c # st_body st"
  by (simp add: extract_step_def Let_def replaceOccurrences_after_unshift)

lemma declaration_name_decl [simp]:
  "declaration_name (extractComponentDeclaration st c) = Some (suggestedName c)"
  by (simp add: extractComponentDeclaration_def)

lemma foldl_extract_step_body:
  "\<exists>ds. st_body (foldl (extract_step B) st cs) = ds @ st_body st
        \<and> map declaration_name ds = rev (map (\<lambda>c. Some (suggestedName c)) cs)"
proof (induction cs arbitrary: st)
  case Nil
  show ?case by simp
next
  case (Cons c cs)
  from Cons[of "extract_step B st c"] obtain ds where
    "st_body (foldl (extract_step B) (extract_step B st c) cs) = ds @ st_body (extract_step B st c)"
    and "map declaration_name ds = rev (map (\<lambda>c. Some (suggestedName c)) cs)" by blast
  then show ?case
    by (intro exI[of _ "ds @ [extractComponentDeclaration st c]"]) (simp add: extract_step_body)
qed

lemma rewrite_body:
  "map declaration_name (take (length cs) (st_body (rewrite B ns cs)))
     = rev (map (\<lambda>c. Some (suggestedName c)) cs)
   \<and> drop (length cs) (st_body (rewrite B ns cs)) = ns"
proof -
  let ?st = "\<lparr>st_body = ns, st_fresh = Suc (max_id (Program ns)), st_replaced = [],
              st_components = []\<rparr>"
  from foldl_extract_step_body[of B ?st cs] obtain ds where
    b: "st_body (rewrite B ns cs) = ds @ ns"
    and d: "map declaration_name ds = rev (map (\<lambda>c. Some (suggestedName c)) cs)"
    by (auto simp: rewrite_def)
  from d have "length ds = length cs" by (metis length_map length_rev)
  with b d show ?thesis by simp
qed

lemma extractComponents_returns:
  assumes "parse B input = Some ns"
    and "findComponentCandidates B (File (Program ns)) options = Inr cs" and "cs \<noteq> []"
  shows "extractComponents B input options
           = Inr \<lparr>code = generate B (File (Program (st_body (rewrite B ns cs)))),
                  components = map component_info_of cs, changed = True\<rparr>"
  using assms by (simp add: extractComponents_def Let_def rewrite_components)

lemma toLowerChar_toUpperChar: "toLowerChar (toUpperChar c) = toLowerChar c"
proof (cases "97 \<le> (of_char c :: nat) \<and> (of_char c :: nat) \<le> 122")
  case True
  define x where "x = (of_char c :: nat)"
  from True have x: "97 \<le> x" "x \<le> 122" by (simp_all add: x_def)
  then have "(x - 32) mod 256 = x - 32" by (intro mod_less) arith
  then have u: "of_char (toUpperChar c) = x - 32"
    using True by (simp add: toUpperChar_def x_def)
  have up: "isUpper (toUpperChar c)" unfolding isUpper_def u using x by arith
  have lo: "\<not> isUpper c" unfolding isUpper_def x_def[symmetric] using x by arith
  have "x - 32 + 32 = x" using x by arith
  then have "toLowerChar (toUpperChar c) = c"
    using up u by (simp add: toLowerChar_def x_def)
  with lo show ?thesis by (simp add: toLowerChar_def)
next
  case False
  then have "toUpperChar c = c" unfolding toUpperChar_def by (rule if_not_P)
  then show ?thesis by simp
qed

lemma toLowerCase_toUpperCase: "toLowerCase (toUpperCase s) = toLowerCase s"
  by (simp add: toLowerCase_def toUpperCase_def toLowerChar_toUpperChar)

lemma toUpperCase_eq_toLowerCase_eq:
  "toUpperCase s = toUpperCase s' \<Longrightarrow> toLowerCase s = toLowerCase s'"
  by (metis toLowerCase_toUpperCase)


lemma count_par:
  "length (filter (\<lambda>path. P (fst path)) (jsx_paths par n)) = count_in P n"
  by (cases n) (simp_all add: count_in_def)

lemma count_par_list:
  "length (filter (\<lambda>path. P (fst path)) (concat (map (jsx_paths (Some p)) ns)))
     = length (filter (\<lambda>path. P (fst path)) (concat (map (jsx_paths None) ns)))"
  by (induction ns) (simp_all add: count_par)

lemma count_in_simps:
  "count_in P (File p) = count_in P p"
  "count_in P (Program ns) = count_in_list P ns"
  "count_in P (JSXElement i nm attrs sc cs)
     = (if P (JSXElement i nm attrs sc cs) then 1 else 0) + count_in_list P attrs + count_in_list P cs"
  "count_in P (JSXAttribute nm v) = (case v of None \<Rightarrow> 0 | Some x \<Rightarrow> count_in P x)"
  "count_in P (StringLiteral s) = 0"
  "count_in P (JSXExpressionContainer e) = count_in P e"
  "count_in P (JSXText s) = 0"
  "count_in P (Identifier s) = 0"
  "count_in P (Other k ns) = count_in_list P ns"
  "count_in_list P [] = 0"
  "count_in_list P (n # ns) = count_in P n + count_in_list P ns"
  by (simp_all add: count_in_def count_in_list_def count_par_list split: option.splits)

lemma replace_first_list_length:
  "length (fst (replace_first_list ids r ns)) = length ns"
  by (induction ns) (auto split: prod.splits option.splits)

lemma is_reference_shape:
  "length attrs' = length attrs \<Longrightarrow> length cs' = length cs \<Longrightarrow>
   is_reference name (JSXElement i nm attrs' sc cs') = is_reference name (JSXElement i nm attrs sc cs)"
  by auto

lemma replace_first_bound:
  "count_in (is_reference name) (fst (replace_first ids r n))
     \<le> count_in (is_reference name) n + count_in (is_reference name) r"
  "count_in_list (is_reference name) (fst (replace_first_list ids r ns))
     \<le> count_in_list (is_reference name) ns + count_in (is_reference name) r"
proof (induction ids r n and ids r ns rule: replace_first_replace_first_list.induct)
  case (3 ids r i nm attrs sc cs)
  let ?P = "is_reference name"
  show ?case
  proof (cases "i \<in> set ids")
    case True
    then show ?thesis by simp
  next
    case False
    obtain attrs' hit where a: "replace_first_list ids r attrs = (attrs', hit)" by force
    have la: "length attrs' = length attrs"
      using replace_first_list_length[of ids r attrs] a by simp
    have ia: "count_in_list ?P attrs' \<le> count_in_list ?P attrs + count_in ?P r"
      using 3(1)[OF False] a by simp
    show ?thesis
    proof (cases hit)
      case (Some j)
      have "?P (JSXElement i nm attrs' sc cs) = ?P (JSXElement i nm attrs sc cs)"
        using la by (intro is_reference_shape) simp_all
      with False a Some ia show ?thesis by (simp add: count_in_simps)
    next
      case None
      obtain cs' hit' where c: "replace_first_list ids r cs = (cs', hit')" by force
      have lc: "length cs' = length cs"
        using replace_first_list_length[of ids r cs] c by simp
      have ic: "count_in_list ?P cs' \<le> count_in_list ?P cs + count_in ?P r"
        using 3(2)[OF False a[symmetric] None] c by simp
      have "?P (JSXElement i nm attrs sc cs') = ?P (JSXElement i nm attrs sc cs)"
        using lc by (intro is_reference_shape) simp_all
      with False a None c ic show ?thesis by (simp add: count_in_simps)
    qed
  qed
next
  case (11 ids r n ns)
  let ?P = "is_reference name"
  obtain n' hit where a: "replace_first ids r n = (n', hit)" by force
  have ia: "count_in ?P n' \<le> count_in ?P n + count_in ?P r"
    using 11(1) a by simp
  show ?case
  proof (cases hit)
    case (Some j)
    with a ia show ?thesis by (simp add: count_in_simps)
  next
    case None
    obtain ns' hit' where c: "replace_first_list ids r ns = (ns', hit')" by force
    have "count_in_list ?P ns' \<le> count_in_list ?P ns + count_in ?P r"
      using 11(2)[OF a[symmetric] None] c by simp
    with a None c show ?thesis by (simp add: count_in_simps)
  qed
next
  case (4 ids r nm v)
  show ?case
  proof (cases v)
    case None
    then show ?thesis by (simp add: count_in_simps)
  next
    case (Some x)
    obtain x' hit where a: "replace_first ids r x = (x', hit)" by force
    with 4[OF Some] Some show ?thesis by (simp add: count_in_simps)
  qed
next
  case (1 ids r p)
  obtain p' hit where a: "replace_first ids r p = (p', hit)" by force
  with 1 show ?case by (simp add: count_in_simps)
next
  case (2 ids r ns)
  obtain ns' hit where a: "replace_first_list ids r ns = (ns', hit)" by force
  with 2 show ?case by (simp add: count_in_simps)
next
  case (6 ids r e)
  obtain e' hit where a: "replace_first ids r e = (e', hit)" by force
  with 6 show ?case by (simp add: count_in_simps)
next
  case (9 ids r k ns)
  obtain ns' hit where a: "replace_first_list ids r ns = (ns', hit)" by force
  with 9 show ?case by (simp add: count_in_simps)
next
  case (5 ids r s)
  show ?case by (simp add: count_in_simps(5))
next
  case (7 ids r s)
  show ?case by (simp add: count_in_simps(7))
next
  case (8 ids r s)
  show ?case by (simp add: count_in_simps(8))
next
  case (10 ids r)
  show ?case by (simp add: count_in_simps(10))
qed

lemma replaceOccurrences_adds_at_most_one:
  "count_references name (fst (replaceOccurrencesWithComponent B new ns candidate))
     \<le> Suc (count_references name ns)"
proof -
  let ?r = "JSXElement new (JSXIdentifier (suggestedName candidate)) [] True []"
  have "count_in (is_reference name) ?r \<le> 1" by (simp add: count_in_simps)
  moreover have "count_references name ms = count_in_list (is_reference name) ms" for ms
    by (simp add: count_references_def count_in_list_def)
  ultimately show ?thesis
    using replace_first_bound(2)[of name "occurrence_ids candidate" ?r ns]
    by (auto simp: replaceOccurrencesWithComponent_def split: option.splits)
qed

subsection \<open>Claims\<close>

text \<open>
  Claim C7. Two elements with the same tag name, the same number of attributes, the same
  number of children and the same class names have the same fingerprint, whatever their
  children are: the text and the expressions of the children are never read.
\<close>

theorem fingerprint_content_blind:
  assumes "tagName_of nm1 = tagName_of nm2"
    and "length attrs1 = length attrs2"
    and "length cs1 = length cs2"
    and "classNames_of B attrs1 = classNames_of B attrs2"
  shows "computeTreeFingerprint B (JSXElement i1 nm1 attrs1 sc1 cs1)
       = computeTreeFingerprint B (JSXElement i2 nm2 attrs2 sc2 cs2)"
  using assms by simp

theorem fingerprint_content_blind_witness:
  "computeTreeFingerprint babel0 (el 1 ''p'' [JSXText ''A''])
     = computeTreeFingerprint babel0 (el 2 ''p'' [JSXExpressionContainer (Identifier ''title'')])"
  unfolding el_def
  using fingerprint_content_blind [of "JSXIdentifier ''p''" "JSXIdentifier ''p''" "[]" "[]"
      "[JSXText ''A'']" "[JSXExpressionContainer (Identifier ''title'')]" babel0 1 False 2 False]
  by simp

text \<open>
  Claim C6. A list that \<^verbatim>\<open>findComponentCandidates\<close> returns is sorted by descending
  count, and groups of equal count stand in the order in which their fingerprints were
  first met by the traversal (\<open>discovery\<close> lists the fingerprints in the order the visitor
  adds elements to the map). \<^verbatim>\<open>extractComponents\<close> takes the groups of a list that is not
  empty in that same order: it reports them in the order of the list, and, each
  declaration being put in front of the program when its group is processed, the
  declarations at the head of the rewritten program name the groups in the reverse order
  of the list.
\<close>

theorem result_ordering:
  "(findComponentCandidates B ast options = Inr cs \<longrightarrow>
      sorted_wrt (\<lambda>a b. count b < count a \<or>
                   (count a = count b \<and>
                    first_index (discovery B ast options) (fingerprint a)
                      < first_index (discovery B ast options) (fingerprint b))) cs)
   \<and> (parse B input = Some ns \<longrightarrow>
       findComponentCandidates B (File (Program ns)) options = Inr cs' \<longrightarrow>
       cs' \<noteq> [] \<longrightarrow>
         extractComponents B input options
           = Inr \<lparr>code = generate B (File (Program (st_body (rewrite B ns cs')))),
                  components = map component_info_of cs',
                  changed = True\<rparr>
         \<and> map declaration_name (take (length cs') (st_body (rewrite B ns cs')))
             = rev (map (\<lambda>c. Some (suggestedName c)) cs'))"
proof (intro conjI impI)
  let ?D = "discovery B ast options"
  let ?f = "\<lambda>c. - int (count c)"
  assume r: "findComponentCandidates B ast options = Inr cs"
  have "sorted_wrt (\<lambda>a b. ?f a < ?f b \<or>
          (?f a = ?f b \<and> first_index ?D (fingerprint a) < first_index ?D (fingerprint b)))
          (sort_key ?f (unsorted_results B ast options))"
    using unsorted_results_discovery by (rule stable_sort_lex)
  then have "sorted_wrt (\<lambda>a b. ?f a < ?f b \<or>
          (?f a = ?f b \<and> first_index ?D (fingerprint a) < first_index ?D (fingerprint b))) cs"
    using findComponentCandidates_Inr(2)[OF r] by simp
  then show "sorted_wrt (\<lambda>a b. count b < count a \<or>
                 (count a = count b \<and>
                  first_index ?D (fingerprint a) < first_index ?D (fingerprint b))) cs"
    by (rule sorted_wrt_mono_rel[rotated]) auto
next
  assume "parse B input = Some ns"
    and "findComponentCandidates B (File (Program ns)) options = Inr cs'" and "cs' \<noteq> []"
  then show "extractComponents B input options
           = Inr \<lparr>code = generate B (File (Program (st_body (rewrite B ns cs')))),
                  components = map component_info_of cs',
                  changed = True\<rparr>"
    by (rule extractComponents_returns)
next
  show "map declaration_name (take (length cs') (st_body (rewrite B ns cs')))
             = rev (map (\<lambda>c. Some (suggestedName c)) cs')"
    using rewrite_body by blast
qed

theorem result_ordering_witness:
  "parse babel0 ''<div><p>A</p><span/><span/><span/><p>B</p></div>'' = Some ex_order
   \<and> findComponentCandidates babel0 (File (Program ex_order)) no_options = Inr order_candidates
   \<and> order_candidates \<noteq> []
   \<and> map count order_candidates = [3, 2]
   \<and> sorted_wrt (\<lambda>a b. count b < count a \<or>
                   (count a = count b \<and>
                    first_index (discovery babel0 (File (Program ex_order)) no_options) (fingerprint a)
                      < first_index (discovery babel0 (File (Program ex_order)) no_options) (fingerprint b)))
        order_candidates
   \<and> extractComponents babel0 ''<div><p>A</p><span/><span/><span/><p>B</p></div>'' no_options
       = Inr \<lparr>code = generate babel0
                        (File (Program (st_body (rewrite babel0 ex_order order_candidates)))),
              components = [(''Extracted2'', 3, ''span:0:0:''), (''Extracted1'', 2, ''p:0:1:'')],
              changed = True\<rparr>
   \<and> map declaration_name (take 2 (st_body (rewrite babel0 ex_order order_candidates)))
       = [Some ''Extracted1'', Some ''Extracted2'']"
proof -
  have p: "parse babel0 ''<div><p>A</p><span/><span/><span/><p>B</p></div>'' = Some ex_order"
    by (simp add: babel0_def parse0_def)
  have f: "findComponentCandidates babel0 (File (Program ex_order)) no_options = Inr order_candidates"
    by code_simp
  have n: "order_candidates \<noteq> []" by (simp add: order_candidates_def)
  have k: "map count order_candidates = [3, 2]" by (simp add: order_candidates_def)
  have c: "map component_info_of order_candidates
         = [(''Extracted2'', 3, ''span:0:0:''), (''Extracted1'', 2, ''p:0:1:'')]"
    by (simp add: order_candidates_def component_info_of_def)
  have l: "length order_candidates = 2" by (simp add: order_candidates_def)
  have d: "rev (map (\<lambda>c. Some (suggestedName c)) order_candidates)
         = [Some ''Extracted1'', Some ''Extracted2'']"
    by (simp add: order_candidates_def)
  note T = result_ordering [where B = babel0 and ast = "File (Program ex_order)"
      and options = no_options and cs = order_candidates and cs' = order_candidates
      and input = "''<div><p>A</p><span/><span/><span/><p>B</p></div>''" and ns = ex_order,
      unfolded c l d]
  from T p f n k show ?thesis by blast
qed

text \<open>
  Claim C5, as amended. The names are handed out by the loop over the map, before the
  sort: listed in the order of discovery of their fingerprints, the groups of a returned
  list carry the names base 1, base 2, and so on. The order of the returned list
  (descending count) plays no part.
\<close>

theorem names_in_discovery_order:
  assumes "findComponentCandidates B ast options = Inr cs"
  shows "map suggestedName
           (sort_key (\<lambda>c. first_index (discovery B ast options) (fingerprint c)) cs)
         = map (\<lambda>i. opt_componentNameBase (spread DEFAULT_OPTIONS options) @ decimal (Suc i))
             [0 ..< length cs]"
proof -
  let ?U = "unsorted_results B ast options"
  note eq = findComponentCandidates_Inr(2)[OF assms]
  have "sort_key (\<lambda>c. first_index (discovery B ast options) (fingerprint c)) cs = ?U"
    using unsorted_results_discovery
    by (rule sort_key_restores) (simp add: eq)
  moreover have "length cs = length ?U"
    by (simp add: eq)
  moreover have "map suggestedName ?U
      = map (\<lambda>i. opt_componentNameBase (spread DEFAULT_OPTIONS options) @ decimal (Suc i))
          [0 ..< 0 + length ?U]"
    unfolding unsorted_results_def by (rule collect_results_names)
  ultimately show ?thesis by simp
qed

theorem names_in_discovery_order_witness:
  "findComponentCandidates babel0 (File (Program ex_order)) no_options = Inr order_candidates
   \<and> map suggestedName
       (sort_key (\<lambda>c. first_index (discovery babel0 (File (Program ex_order)) no_options)
                        (fingerprint c)) order_candidates)
     = [''Extracted1'', ''Extracted2'']"
proof -
  have f: "findComponentCandidates babel0 (File (Program ex_order)) no_options = Inr order_candidates"
    by code_simp
  have e: "map (\<lambda>i. opt_componentNameBase (spread DEFAULT_OPTIONS no_options) @ decimal (Suc i))
             [0 ..< length order_candidates] = [''Extracted1'', ''Extracted2'']"
    by code_simp
  from names_in_discovery_order [OF f] f e show ?thesis by simp
qed

text \<open>
  The claim as stated fails on \<^verbatim>\<open><div><p>A</p><span/><span/><span/><p>B</p></div>\<close>: the most
  repeated group, processed first, is named \<^verbatim>\<open>Extracted2\<close>.
\<close>

theorem names_counterexample:
  "findComponentCandidates babel0 (File (Program ex_order)) no_options = Inr order_candidates
   \<and> map suggestedName order_candidates = [''Extracted2'', ''Extracted1'']
   \<and> map count order_candidates = [3, 2]"
  by code_simp

text \<open>
  Claim C10. \<^verbatim>\<open>getTagName\<close> yields \<^verbatim>\<open>null\<close> for an element whose name is a member
  expression, and an element for which it yields \<^verbatim>\<open>null\<close> is in no group that
  \<^verbatim>\<open>findComponentCandidates\<close> returns. \<^verbatim>\<open>shouldSkipTag\<close> looks the lowercased tag name up in
  the set of tags to skip, so its answer is the same for two tag names that differ in case
  only, and an element whose tag name differs in case only from a lowercase member of
  \<^verbatim>\<open>skipTags\<close> is in no returned group.
\<close>

theorem non_identifier_names_excluded:
  "getTagName (JSXElement i (JSXMemberExpression obj prop) attrs sc cs) = None
   \<and> (getTagName n = None \<longrightarrow> findComponentCandidates B ast options = Inr gs \<longrightarrow>
        c \<in> set gs \<longrightarrow> n \<notin> set (occurrences c))
   \<and> shouldSkipTag (JSXElement j (JSXIdentifier s) attrs1 sc1 cs1) skip
       = (s = [] \<or> toLowerCase s \<in> skip)
   \<and> (toUpperCase s = toUpperCase s' \<longrightarrow>
        shouldSkipTag (JSXElement j (JSXIdentifier s) attrs1 sc1 cs1) skip
          = shouldSkipTag (JSXElement j' (JSXIdentifier s') attrs2 sc2 cs2) skip)
   \<and> (getTagName n = Some t \<longrightarrow> toUpperCase t = toUpperCase t' \<longrightarrow> toLowerCase t' = t' \<longrightarrow>
        t' \<in> opt_skipTags (spread DEFAULT_OPTIONS options) \<longrightarrow>
        findComponentCandidates B ast options = Inr gs \<longrightarrow>
        c \<in> set gs \<longrightarrow> n \<notin> set (occurrences c))"
proof (intro conjI impI)
  show "getTagName (JSXElement i (JSXMemberExpression obj prop) attrs sc cs) = None" by simp
next
  assume none: "getTagName n = None" and r: "findComponentCandidates B ast options = Inr gs"
    and c: "c \<in> set gs"
  from c have c': "c \<in> set (unsorted_results B ast options)"
    using findComponentCandidates_Inr(3)[OF r] by simp
  show "n \<notin> set (occurrences c)"
  proof
    assume "n \<in> set (occurrences c)"
    from occurrence_origin[OF c' this] obtain par where
      "accepted (spread DEFAULT_OPTIONS options) (n, par)" by blast
    then have "\<not> shouldSkipTag n (opt_skipTags (spread DEFAULT_OPTIONS options))"
      using accepted_parent by blast
    with none show False by (simp add: shouldSkipTag_def)
  qed
next
  show "shouldSkipTag (JSXElement j (JSXIdentifier s) attrs1 sc1 cs1) skip
       = (s = [] \<or> toLowerCase s \<in> skip)"
    by (auto simp: shouldSkipTag_def)
next
  assume u: "toUpperCase s = toUpperCase s'"
  then have l: "toLowerCase s = toLowerCase s'" by (rule toUpperCase_eq_toLowerCase_eq)
  from u have "length s = length s'" by (metis toUpperCase_def length_map)
  then have "(s = []) = (s' = [])" by auto
  with l show "shouldSkipTag (JSXElement j (JSXIdentifier s) attrs1 sc1 cs1) skip
          = shouldSkipTag (JSXElement j' (JSXIdentifier s') attrs2 sc2 cs2) skip"
    by (auto simp: shouldSkipTag_def)
next
  assume t: "getTagName n = Some t" and u: "toUpperCase t = toUpperCase t'"
    and low: "toLowerCase t' = t'"
    and mem: "t' \<in> opt_skipTags (spread DEFAULT_OPTIONS options)"
    and r: "findComponentCandidates B ast options = Inr gs" and c: "c \<in> set gs"
  from c have c': "c \<in> set (unsorted_results B ast options)"
    using findComponentCandidates_Inr(3)[OF r] by simp
  from u have "toLowerCase t = toLowerCase t'" by (rule toUpperCase_eq_toLowerCase_eq)
  with low mem have "toLowerCase t \<in> opt_skipTags (spread DEFAULT_OPTIONS options)" by simp
  with t have skip: "shouldSkipTag n (opt_skipTags (spread DEFAULT_OPTIONS options))"
    by (simp add: shouldSkipTag_iff)
  show "n \<notin> set (occurrences c)"
  proof
    assume "n \<in> set (occurrences c)"
    from occurrence_origin[OF c' this] obtain par where
      "accepted (spread DEFAULT_OPTIONS options) (n, par)" by blast
    then have "\<not> shouldSkipTag n (opt_skipTags (spread DEFAULT_OPTIONS options))"
      using accepted_parent by blast
    with skip show False by simp
  qed
qed

theorem non_identifier_names_excluded_witness:
  "getTagName (foo_bar 1) = None
   \<and> findComponentCandidates babel0 (File (Program ex_member)) no_options = Inr [member_candidate]
   \<and> foo_bar 1 \<notin> set (occurrences member_candidate)
   \<and> toUpperCase ''clipPath'' = toUpperCase ''clippath''
   \<and> toLowerCase ''clippath'' = ''clippath''
   \<and> ''clippath'' \<in> opt_skipTags (spread DEFAULT_OPTIONS no_options)
   \<and> shouldSkipTag (leaf 1 ''clippath'') (opt_skipTags (spread DEFAULT_OPTIONS no_options))
   \<and> shouldSkipTag (leaf 1 ''clipPath'') (opt_skipTags (spread DEFAULT_OPTIONS no_options))
   \<and> getTagName (leaf 1 ''clipPath'') = Some ''clipPath''
   \<and> findComponentCandidates babel0 (File (Program ex_case)) no_options = Inr [member_candidate]
   \<and> leaf 1 ''clipPath'' \<notin> set (occurrences member_candidate)"
proof -
  let ?skip = "opt_skipTags (spread DEFAULT_OPTIONS no_options)"
  have e: "findComponentCandidates babel0 (File (Program ex_member)) no_options = Inr [member_candidate]"
    by code_simp
  have e': "findComponentCandidates babel0 (File (Program ex_case)) no_options = Inr [member_candidate]"
    by code_simp
  have m: "member_candidate \<in> set [member_candidate]" by simp
  have g: "getTagName (foo_bar 1) = None" by (simp add: foo_bar_def)
  have g': "getTagName (leaf 1 ''clipPath'') = Some ''clipPath''" by (simp add: leaf_def)
  have u: "toUpperCase ''clipPath'' = toUpperCase ''clippath''" by code_simp
  have l: "toLowerCase ''clippath'' = ''clippath''" by code_simp
  have s: "''clippath'' \<in> ?skip" by code_simp
  note T1 = non_identifier_names_excluded [where n = "foo_bar 1" and c = member_candidate
      and B = babel0 and ast = "File (Program ex_member)" and options = no_options
      and gs = "[member_candidate]"]
  note T2 = non_identifier_names_excluded [where n = "leaf 1 ''clipPath''" and c = member_candidate
      and B = babel0 and ast = "File (Program ex_case)" and options = no_options
      and gs = "[member_candidate]" and t = "''clipPath''" and t' = "''clippath''"
      and s = "''clipPath''" and s' = "''clippath''" and skip = ?skip
      and j = 1 and j' = 1 and ?attrs1.0 = "[]" and ?attrs2.0 = "[]" and ?sc1.0 = True
      and ?sc2.0 = True and ?cs1.0 = "[]" and ?cs2.0 = "[]", folded leaf_def]
  from T1 g e m have a: "foo_bar 1 \<notin> set (occurrences member_candidate)" by blast
  from T2 g' u l s e' m have b: "leaf 1 ''clipPath'' \<notin> set (occurrences member_candidate)" by blast
  from T2 u have q: "shouldSkipTag (leaf 1 ''clipPath'') ?skip = shouldSkipTag (leaf 1 ''clippath'') ?skip"
    by blast
  have low: "shouldSkipTag (leaf 1 ''clippath'') ?skip"
    using s l by (simp add: leaf_def shouldSkipTag_def)
  with q have up: "shouldSkipTag (leaf 1 ''clipPath'') ?skip" by simp
  from g e a u l s low up g' e' b show ?thesis by blast
qed

text \<open>
  Claim C2. When \<^verbatim>\<open>findComponentCandidates\<close> returns no group, and in particular when its
  traversal does not throw and no fingerprint is shared by \<^verbatim>\<open>minRepeats\<close> elements of the
  program, \<^verbatim>\<open>extractComponents\<close> returns the input text itself, an empty list of
  components and \<^verbatim>\<open>changed = false\<close>. The claim does not hold of every program without
  repeated elements: the first traversal is outside any \<^verbatim>\<open>try\<close>, unlike the two other
  traversals of the file, and on \<^verbatim>\<open>function C() { return <i>x</i>; }\<close>, whose one element
  is met once, it throws a \<^verbatim>\<open>TypeError\<close> that leaves \<^verbatim>\<open>extractComponents\<close>: nothing is
  returned.
\<close>

theorem no_op_unless_traversal_throws:
  "(parse B input = Some ns \<longrightarrow>
      (findComponentCandidates B (File (Program ns)) options = Inr []
       \<or> (\<not> traverse_throws B (Program ns)
          \<and> (\<forall>fp. int (length (filter (\<lambda>path. computeTreeFingerprint B (fst path) = fp)
                            (jsx_paths None (Program ns))))
                    < opt_minRepeats (spread DEFAULT_OPTIONS options)))) \<longrightarrow>
      extractComponents B input options
        = Inr \<lparr>code = input, components = [], changed = False\<rparr>)
   \<and> parse babel0 ''function C() { return <i>x</i>; }'' = Some ex_function
   \<and> jsx_paths None (Program ex_function) = [(el 0 ''i'' [JSXText ''x''], None)]
   \<and> traverse_throws babel0 (Program ex_function)
   \<and> findComponentCandidates babel0 (File (Program ex_function)) no_options = Inl TypeError
   \<and> extractComponents babel0 ''function C() { return <i>x</i>; }'' no_options = Inl TypeError"
proof (intro conjI impI)
  assume p: "parse B input = Some ns"
    and h: "findComponentCandidates B (File (Program ns)) options = Inr []
       \<or> (\<not> traverse_throws B (Program ns)
          \<and> (\<forall>fp. int (length (filter (\<lambda>path. computeTreeFingerprint B (fst path) = fp)
                            (jsx_paths None (Program ns))))
                    < opt_minRepeats (spread DEFAULT_OPTIONS options)))"
  have "findComponentCandidates B (File (Program ns)) options = Inr []"
  proof (rule disjE[OF h])
    assume "\<not> traverse_throws B (Program ns)
          \<and> (\<forall>fp. int (length (filter (\<lambda>path. computeTreeFingerprint B (fst path) = fp)
                            (jsx_paths None (Program ns))))
                    < opt_minRepeats (spread DEFAULT_OPTIONS options))"
    then have no: "\<not> traverse_throws B (program_of (File (Program ns)))"
      and u: "unsorted_results B (File (Program ns)) options = []"
      using below_threshold_no_candidates[of B "File (Program ns)" options] by simp_all
    from findComponentCandidates_returns[OF no, of options] u
    show ?thesis by simp
  qed
  with p show "extractComponents B input options
        = Inr \<lparr>code = input, components = [], changed = False\<rparr>"
    by (rule extractComponents_no_candidates)
next
  show "parse babel0 ''function C() { return <i>x</i>; }'' = Some ex_function"
    by (simp add: babel0_def parse0_def)
next
  show "jsx_paths None (Program ex_function) = [(el 0 ''i'' [JSXText ''x''], None)]"
    by code_simp
next
  show "traverse_throws babel0 (Program ex_function)" by code_simp
next
  show "findComponentCandidates babel0 (File (Program ex_function)) no_options = Inl TypeError"
    by code_simp
next
  show "extractComponents babel0 ''function C() { return <i>x</i>; }'' no_options = Inl TypeError"
    by code_simp
qed

theorem no_op_unless_traversal_throws_witness:
  "parse babel0 ''<i>x</i>'' = Some [stmt (el 0 ''i'' [JSXText ''x''])]
   \<and> findComponentCandidates babel0 (File (Program [stmt (el 0 ''i'' [JSXText ''x''])])) no_options
       = Inr []
   \<and> extractComponents babel0 ''<i>x</i>'' no_options
       = Inr \<lparr>code = ''<i>x</i>'', components = [], changed = False\<rparr>"
proof -
  have p: "parse babel0 ''<i>x</i>'' = Some [stmt (el 0 ''i'' [JSXText ''x''])]"
    by (simp add: babel0_def parse0_def)
  have e: "findComponentCandidates babel0 (File (Program [stmt (el 0 ''i'' [JSXText ''x''])])) no_options
             = Inr []"
    by code_simp
  note T = no_op_unless_traversal_throws [where B = babel0 and input = "''<i>x</i>''"
      and ns = "[stmt (el 0 ''i'' [JSXText ''x''])]" and options = no_options]
  from T p e show ?thesis by blast
qed

text \<open>
  Claim C8, as amended. On a text that the parser rejects, \<^verbatim>\<open>extractComponents\<close> does not
  return: the error of the parser goes to the caller, and with it no text at all, neither
  the original one nor a partial one.
\<close>

theorem parse_failure_raises:
  assumes "parse B input = None"
  shows "extractComponents B input options = Inl SyntaxError"
  using assms by (simp add: extractComponents_def)

theorem parse_failure_raises_witness:
  "parse babel0 ''<div'' = None \<and> extractComponents babel0 ''<div'' no_options = Inl SyntaxError"
proof -
  have p: "parse babel0 ''<div'' = None" by (simp add: babel0_def parse0_def)
  from parse_failure_raises [OF p] p show ?thesis by simp
qed

text \<open>
  The claim as stated fails: on the malformed text \<^verbatim>\<open><div\<close> the call hands no text back.
\<close>

theorem parse_failure_counterexample:
  "returned_code (extractComponents babel0 ''<div'' no_options) \<noteq> Some ''<div''"
  by (simp add: returned_code_def extractComponents_def babel0_def parse0_def)

text \<open>
  Claim C9, as amended. An element whose own lowercased tag, or whose parent element's
  lowercased tag, is in \<^verbatim>\<open>skipTags\<close> is in no group that \<^verbatim>\<open>findComponentCandidates\<close>
  returns. In particular a program that is one element whose children are self-closing
  elements of one such tag, however many, has no candidate group when the traversal of it
  does not throw, and \<^verbatim>\<open>extractComponents\<close> returns it unchanged.
\<close>

theorem skip_tag_exclusion:
  "(distinct_nodes (program_of ast) \<longrightarrow>
    (n, par) \<in> set (jsx_paths None (program_of ast)) \<longrightarrow>
    ((\<exists>t. getTagName n = Some t \<and> toLowerCase t \<in> opt_skipTags (spread DEFAULT_OPTIONS options))
     \<or> (\<exists>p t. par = Some p \<and> getTagName p = Some t
              \<and> toLowerCase t \<in> opt_skipTags (spread DEFAULT_OPTIONS options))) \<longrightarrow>
    findComponentCandidates B ast options = Inr gs \<longrightarrow>
    c \<in> set gs \<longrightarrow>
    n \<notin> set (occurrences c))
   \<and> (toLowerCase t' \<in> opt_skipTags (spread DEFAULT_OPTIONS options) \<longrightarrow>
       parse B input
         = Some [Other k [JSXElement r nm [] sc
                   (map (\<lambda>i. JSXElement i (JSXIdentifier t') [] True []) ids)]] \<longrightarrow>
       \<not> traverse_throws B
           (Program [Other k [JSXElement r nm [] sc
                   (map (\<lambda>i. JSXElement i (JSXIdentifier t') [] True []) ids)]]) \<longrightarrow>
       findComponentCandidates B
           (File (Program [Other k [JSXElement r nm [] sc
                   (map (\<lambda>i. JSXElement i (JSXIdentifier t') [] True []) ids)]])) options = Inr []
       \<and> extractComponents B input options
           = Inr \<lparr>code = input, components = [], changed = False\<rparr>)"
proof (intro conjI impI)
  let ?skip = "opt_skipTags (spread DEFAULT_OPTIONS options)"
  assume wf: "distinct_nodes (program_of ast)"
    and path: "(n, par) \<in> set (jsx_paths None (program_of ast))"
    and skip: "(\<exists>t. getTagName n = Some t \<and> toLowerCase t \<in> ?skip)
               \<or> (\<exists>p t. par = Some p \<and> getTagName p = Some t \<and> toLowerCase t \<in> ?skip)"
    and r: "findComponentCandidates B ast options = Inr gs"
    and c: "c \<in> set gs"
  from c have c': "c \<in> set (unsorted_results B ast options)"
    using findComponentCandidates_Inr(3)[OF r] by simp
  show "n \<notin> set (occurrences c)"
  proof
    assume "n \<in> set (occurrences c)"
    from occurrence_origin[OF c' this] obtain par' where
      p': "(n, par') \<in> set (jsx_paths None (program_of ast))"
      and acc: "accepted (spread DEFAULT_OPTIONS options) (n, par')" by blast
    have "par' = par" using wf p' path by (rule paths_unique)
    with acc obtain p where "par = Some p" and "\<not> shouldSkipTag p ?skip" and "\<not> shouldSkipTag n ?skip"
      using accepted_parent by blast
    with skip show False by (auto simp: shouldSkipTag_iff)
  qed
next
  let ?opts = "spread DEFAULT_OPTIONS options"
  let ?leaves = "map (\<lambda>i. JSXElement i (JSXIdentifier t') [] True []) ids"
  let ?root = "JSXElement r nm [] sc ?leaves"
  assume t': "toLowerCase t' \<in> opt_skipTags ?opts"
    and p: "parse B input = Some [Other k [?root]]"
    and no: "\<not> traverse_throws B (Program [Other k [?root]])"
  have paths: "jsx_paths None (Program [Other k [?root]])
      = (?root, None) # map (\<lambda>i. (JSXElement i (JSXIdentifier t') [] True [], Some ?root)) ids"
    by (simp add: jsx_paths_leaves del: map_map)
  have "\<not> accepted ?opts path" if "path \<in> set (jsx_paths None (Program [Other k [?root]]))" for path
    using that t' unfolding paths by (auto simp: accepted_def shouldSkipTag_def)
  then have "pushes B ?opts (program_of (File (Program [Other k [?root]]))) = []"
    by (simp add: pushes_def filter_empty_conv del: jsx_paths.simps)
  then have u: "unsorted_results B (File (Program [Other k [?root]])) options = []"
    by (rule no_pushes_no_candidates)
  from no have no': "\<not> traverse_throws B (program_of (File (Program [Other k [?root]])))" by simp
  from findComponentCandidates_returns[OF no', of options] u
  show e: "findComponentCandidates B (File (Program [Other k [?root]])) options = Inr []"
    by simp
  from p e show "extractComponents B input options
      = Inr \<lparr>code = input, components = [], changed = False\<rparr>"
    by (rule extractComponents_no_candidates)
qed

theorem skip_tag_exclusion_witness:
  "distinct_nodes (Program ex_skip)
   \<and> (leaf 1 ''path'', Some (el 0 ''div'' [leaf 1 ''path'', el 2 ''p'' [JSXText ''A''], el 3 ''p'' [JSXText ''B'']]))
        \<in> set (jsx_paths None (Program ex_skip))
   \<and> getTagName (leaf 1 ''path'') = Some ''path''
   \<and> toLowerCase ''path'' \<in> opt_skipTags (spread DEFAULT_OPTIONS no_options)
   \<and> findComponentCandidates babel0 (File (Program ex_skip)) no_options = Inr [skip_candidate]
   \<and> leaf 1 ''path'' \<notin> set (occurrences skip_candidate)
   \<and> parse babel0 ''<div><path/><path/><path/><path/><path/><path/><path/><path/><path/><path/></div>''
        = Some ex_paths
   \<and> \<not> traverse_throws babel0 (Program ex_paths)
   \<and> findComponentCandidates babel0 (File (Program ex_paths)) no_options = Inr []
   \<and> extractComponents babel0
        ''<div><path/><path/><path/><path/><path/><path/><path/><path/><path/><path/></div>'' no_options
        = Inr \<lparr>code = ''<div><path/><path/><path/><path/><path/><path/><path/><path/><path/><path/></div>'',
               components = [], changed = False\<rparr>"
proof -
  let ?root = "el 0 ''div'' [leaf 1 ''path'', el 2 ''p'' [JSXText ''A''], el 3 ''p'' [JSXText ''B'']]"
  let ?src = "''<div><path/><path/><path/><path/><path/><path/><path/><path/><path/><path/></div>''"
  have h1: "distinct_nodes (Program ex_skip)" by code_simp
  have h2: "(leaf 1 ''path'', Some ?root) \<in> set (jsx_paths None (Program ex_skip))" by code_simp
  have h3: "getTagName (leaf 1 ''path'') = Some ''path''" by (simp add: leaf_def)
  have h4: "toLowerCase ''path'' \<in> opt_skipTags (spread DEFAULT_OPTIONS no_options)" by code_simp
  have h5: "findComponentCandidates babel0 (File (Program ex_skip)) no_options = Inr [skip_candidate]"
    by code_simp
  have m: "skip_candidate \<in> set [skip_candidate]" by simp
  have h6: "parse babel0 ?src = Some ex_paths" by (simp add: babel0_def parse0_def)
  have h7: "\<not> traverse_throws babel0 (Program ex_paths)" by code_simp
  have shape: "ex_paths = [Other ''ExpressionStatement'' [JSXElement 0 (JSXIdentifier ''div'') [] False
                  (map (\<lambda>i. JSXElement i (JSXIdentifier ''path'') [] True []) [1..<11])]]"
    by (simp add: ex_paths_def stmt_def el_def leaf_def del: upt_Suc)
  note T = skip_tag_exclusion [where ast = "File (Program ex_skip)" and options = no_options
      and n = "leaf 1 ''path''" and par = "Some ?root" and c = skip_candidate and B = babel0
      and gs = "[skip_candidate]"
      and t' = "''path''" and input = ?src and k = "''ExpressionStatement''" and r = 0
      and nm = "JSXIdentifier ''div''" and sc = False and ids = "[1..<11]",
      unfolded program_of_File, folded shape]
  from T h1 h2 h3 h4 h5 m have a: "leaf 1 ''path'' \<notin> set (occurrences skip_candidate)" by blast
  from T h4 h6 h7 have b: "findComponentCandidates babel0 (File (Program ex_paths)) no_options = Inr []
     \<and> extractComponents babel0 ?src no_options = Inr \<lparr>code = ?src, components = [], changed = False\<rparr>"
    by blast
  from h1 h2 h3 h4 h5 h6 h7 a b show ?thesis by blast
qed

text \<open>
  The claim as stated fails when \<^verbatim>\<open>skipTags\<close> holds a name that is not lowercase: with
  \<^verbatim>\<open>skipTags: new Set(["clipPath"])\<close> the two \<^verbatim>\<open>clipPath\<close> elements of
  \<^verbatim>\<open><g><clipPath/><clipPath/></g>\<close> form a returned group.
\<close>

theorem skip_tag_counterexample:
  "skipTags clip_options = Some {''clipPath''}
   \<and> returned_occurrences (findComponentCandidates babel0 (File (Program ex_clip)) clip_options)
       = Some [[leaf 1 ''clipPath'', leaf 2 ''clipPath'']]
   \<and> getTagName (leaf 1 ''clipPath'') = Some ''clipPath''"
  by code_simp

text \<open>
  Claim C4, as amended. \<^verbatim>\<open>findComponentCandidates\<close> has no check of nesting between
  occurrences. What it guarantees of every occurrence of a returned group is this: the
  occurrence is not a custom unit itself, and its parent is an element that is neither a
  custom unit nor skipped.
\<close>

theorem occurrences_unwrapped:
  assumes "distinct_nodes (program_of ast)"
    and "findComponentCandidates B ast options = Inr gs"
    and "c \<in> set gs"
    and "n \<in> set (occurrences c)"
  shows "\<not> isCustomComponent n
       \<and> (\<exists>p. (n, Some p) \<in> set (jsx_paths None (program_of ast))
              \<and> \<not> isCustomComponent p
              \<and> \<not> shouldSkipTag p (opt_skipTags (spread DEFAULT_OPTIONS options)))"
proof -
  let ?opts = "spread DEFAULT_OPTIONS options"
  note no = findComponentCandidates_Inr(1)[OF assms(2)]
  from assms(3) have c': "c \<in> set (unsorted_results B ast options)"
    using findComponentCandidates_Inr(3)[OF assms(2)] by simp
  from occurrence_origin[OF c' assms(4)] obtain par where
    path: "(n, par) \<in> set (jsx_paths None (program_of ast))"
    and acc: "accepted ?opts (n, par)" by blast
  from acc obtain p where p: "par = Some p" "\<not> shouldSkipTag p (opt_skipTags ?opts)"
    "\<not> isCustomComponent n"
    using accepted_parent by blast
  have "kept B ?opts (program_of ast) (fingerprint c, occurrences c)"
    using c' unsorted_results_member by simp
  then have "\<not> wrapped_in_custom B (program_of ast) (occurrences c)" by (simp add: kept_def)
  with no assms(1) have "\<not> isCustomComponent p"
    using assms(4) path p(1) by (intro kept_not_wrapped) auto
  with path p show ?thesis by auto
qed

theorem occurrences_unwrapped_witness:
  "distinct_nodes (Program ex_skip)
   \<and> findComponentCandidates babel0 (File (Program ex_skip)) no_options = Inr [skip_candidate]
   \<and> el 2 ''p'' [JSXText ''A''] \<in> set (occurrences skip_candidate)
   \<and> \<not> isCustomComponent (el 2 ''p'' [JSXText ''A''])
   \<and> (\<exists>p. (el 2 ''p'' [JSXText ''A''], Some p) \<in> set (jsx_paths None (Program ex_skip))
          \<and> \<not> isCustomComponent p
          \<and> \<not> shouldSkipTag p (opt_skipTags (spread DEFAULT_OPTIONS no_options)))"
proof -
  have h1: "distinct_nodes (Program ex_skip)" by code_simp
  have h2: "findComponentCandidates babel0 (File (Program ex_skip)) no_options = Inr [skip_candidate]"
    by code_simp
  have m: "skip_candidate \<in> set [skip_candidate]" by simp
  have h3: "el 2 ''p'' [JSXText ''A''] \<in> set (occurrences skip_candidate)"
    by (simp add: skip_candidate_def)
  note T = occurrences_unwrapped [where ast = "File (Program ex_skip)" and B = babel0
      and options = no_options and c = skip_candidate and n = "el 2 ''p'' [JSXText ''A'']"
      and gs = "[skip_candidate]",
      unfolded program_of_File, OF h1 h2 m h3]
  from h1 h2 h3 T show ?thesis by blast
qed

text \<open>
  The claim as stated fails on
  \<^verbatim>\<open><section><div><span/></div><div><span/></div></section>\<close>: both the group of the two
  \<^verbatim>\<open>div\<close> elements and the group of the two \<^verbatim>\<open>span\<close> elements inside them are returned.
\<close>

theorem self_nesting_counterexample:
  "returned_occurrences (findComponentCandidates babel0 (File (Program ex_nested)) no_options)
     = Some [[el 1 ''div'' [leaf 2 ''span''], el 3 ''div'' [leaf 4 ''span'']],
             [leaf 2 ''span'', leaf 4 ''span'']]
   \<and> (leaf 2 ''span'', Some (el 1 ''div'' [leaf 2 ''span'']))
        \<in> set (jsx_paths None (Program ex_nested))"
  by code_simp

text \<open>
  Claim C3, as amended. When the parent element of one occurrence of a group is a custom
  unit, the whole group is dropped: no returned group has its fingerprint. Only the parent
  is looked at, not the ancestors above it.
\<close>

theorem parent_exclusion:
  assumes "distinct_nodes (program_of ast)"
    and "(n, Some p) \<in> set (jsx_paths None (program_of ast))"
    and "\<not> shouldSkipTag n (opt_skipTags (spread DEFAULT_OPTIONS options))"
    and "\<not> isCustomComponent n"
    and "\<not> shouldSkipTag p (opt_skipTags (spread DEFAULT_OPTIONS options))"
    and "isCustomComponent p"
    and "findComponentCandidates B ast options = Inr gs"
  shows "computeTreeFingerprint B n \<notin> fingerprint ` set gs"
proof
  let ?opts = "spread DEFAULT_OPTIONS options"
  let ?P = "pushes B ?opts (program_of ast)"
  note no = findComponentCandidates_Inr(1)[OF assms(7)]
  assume "computeTreeFingerprint B n \<in> fingerprint ` set gs"
  then obtain c where c: "c \<in> set (unsorted_results B ast options)"
    and fp: "fingerprint c = computeTreeFingerprint B n"
    using findComponentCandidates_Inr(3)[OF assms(7)] by auto
  from unsorted_results_member[OF c]
  have m: "(fingerprint c, occurrences c) \<in> set (groups_of ?P)"
    and k: "kept B ?opts (program_of ast) (fingerprint c, occurrences c)" by simp_all
  have "accepted ?opts (n, Some p)" using assms(3,4,5) by (simp add: accepted_def)
  with assms(2) have "(computeTreeFingerprint B n, n) \<in> set ?P"
    by (force simp: pushes_def)
  moreover have "occurrences c = map snd (filter (\<lambda>kv. fst kv = fingerprint c) ?P)"
    using m groups_of_member by blast
  ultimately have "n \<in> set (occurrences c)" using fp by force
  moreover have "\<not> wrapped_in_custom B (program_of ast) (occurrences c)"
    using k by (simp add: kept_def)
  ultimately have "\<not> isCustomComponent p"
    using no assms(1,2) by (intro kept_not_wrapped) auto
  with assms(6) show False by simp
qed

theorem parent_exclusion_witness:
  "distinct_nodes (Program ex_wrapped)
   \<and> (leaf 3 ''p'', Some (el 2 ''Foo'' [leaf 3 ''p''])) \<in> set (jsx_paths None (Program ex_wrapped))
   \<and> \<not> shouldSkipTag (leaf 3 ''p'') (opt_skipTags (spread DEFAULT_OPTIONS no_options))
   \<and> \<not> isCustomComponent (leaf 3 ''p'')
   \<and> \<not> shouldSkipTag (el 2 ''Foo'' [leaf 3 ''p'']) (opt_skipTags (spread DEFAULT_OPTIONS no_options))
   \<and> isCustomComponent (el 2 ''Foo'' [leaf 3 ''p''])
   \<and> findComponentCandidates babel0 (File (Program ex_wrapped)) no_options = Inr [wrapped_candidate]
   \<and> computeTreeFingerprint babel0 (leaf 3 ''p'') = ''p:0:0:''
   \<and> computeTreeFingerprint babel0 (leaf 3 ''p'') \<notin> fingerprint ` set [wrapped_candidate]"
proof -
  have h1: "distinct_nodes (Program ex_wrapped)" by code_simp
  have h2: "(leaf 3 ''p'', Some (el 2 ''Foo'' [leaf 3 ''p'']))
              \<in> set (jsx_paths None (Program ex_wrapped))" by code_simp
  have h3: "\<not> shouldSkipTag (leaf 3 ''p'') (opt_skipTags (spread DEFAULT_OPTIONS no_options))"
    by code_simp
  have h4: "\<not> isCustomComponent (leaf 3 ''p'')" by code_simp
  have h5: "\<not> shouldSkipTag (el 2 ''Foo'' [leaf 3 ''p'']) (opt_skipTags (spread DEFAULT_OPTIONS no_options))"
    by code_simp
  have h6: "isCustomComponent (el 2 ''Foo'' [leaf 3 ''p''])" by code_simp
  have h7: "findComponentCandidates babel0 (File (Program ex_wrapped)) no_options
              = Inr [wrapped_candidate]"
    by code_simp
  have h8: "computeTreeFingerprint babel0 (leaf 3 ''p'') = ''p:0:0:''" by code_simp
  note T = parent_exclusion [where ast = "File (Program ex_wrapped)" and B = babel0
      and options = no_options and n = "leaf 3 ''p''" and p = "el 2 ''Foo'' [leaf 3 ''p'']"
      and gs = "[wrapped_candidate]",
      unfolded program_of_File, OF h1 h2 h3 h4 h5 h6 h7]
  from h1 h2 h3 h4 h5 h6 h7 h8 T show ?thesis by blast
qed

text \<open>
  The claim as stated fails on \<^verbatim>\<open><Foo><div><p/><p/></div></Foo>\<close>: the two \<^verbatim>\<open>p\<close> elements lie
  below the custom unit \<^verbatim>\<open>Foo\<close>, their parent is the \<^verbatim>\<open>div\<close>, and their group is returned.
\<close>

theorem ancestor_exclusion_counterexample:
  "returned_occurrences (findComponentCandidates babel0 (File (Program ex_grandparent)) no_options)
     = Some [[leaf 2 ''p'', leaf 3 ''p'']]
   \<and> isCustomComponent (el 0 ''Foo'' [el 1 ''div'' [leaf 2 ''p'', leaf 3 ''p'']])
   \<and> leaf 2 ''p'' \<in> fst ` set (jsx_paths None (el 0 ''Foo'' [el 1 ''div'' [leaf 2 ''p'', leaf 3 ''p'']]))"
  by code_simp

text \<open>
  Claim C1. The claim does not hold of the code. Inside \<^verbatim>\<open>extractComponents\<close> a declaration
  is put in front of the program before \<^verbatim>\<open>replaceOccurrencesWithComponent\<close> is called: the
  traversal of that call meets the function declaration first, throws, the \<^verbatim>\<open>catch\<close>
  swallows the error, and no occurrence is replaced. So whatever the program and the
  groups are, the rewritten program is the declarations followed by the statements of the
  input, unchanged. And one call of \<^verbatim>\<open>replaceOccurrencesWithComponent\<close>, on any program, adds
  at most one reference: where its traversal does not throw, it stops at the first
  occurrence it replaces. On \<^verbatim>\<open><div><p>A</p><p>B</p></div>\<close> the group of the two \<^verbatim>\<open>p\<close>
  elements is reported with count 2, and the rewritten program holds one declaration of
  \<^verbatim>\<open>Extracted1\<close> and no reference \<^verbatim>\<open><Extracted1 />\<close>; the call alone, on the program as
  parsed, replaces the first \<^verbatim>\<open>p\<close> and leaves the second.
\<close>

theorem count_conservation_fails:
  "drop (length gs) (st_body (rewrite B ns gs)) = ns
   \<and> count_references name (fst (replaceOccurrencesWithComponent B new ms candidate))
       \<le> Suc (count_references name ms)
   \<and> findComponentCandidates babel0 (File (Program ex_pair)) no_options = Inr [pair_candidate]
   \<and> count pair_candidate = 2
   \<and> st_body (rewrite babel0 ex_pair [pair_candidate])
     = [Other ''FunctionDeclaration''
          [Identifier ''Extracted1'',
           Other ''BlockStatement''
             [Other ''ReturnStatement'' [JSXElement 4 (JSXIdentifier ''p'') [] False [JSXText ''A'']]]],
        stmt (el 0 ''div'' [el 1 ''p'' [JSXText ''A''], el 2 ''p'' [JSXText ''B'']])]
   \<and> count_declarations ''Extracted1'' (st_body (rewrite babel0 ex_pair [pair_candidate])) = 1
   \<and> count_references ''Extracted1'' (st_body (rewrite babel0 ex_pair [pair_candidate])) = 0
   \<and> extractComponents babel0 ''<div><p>A</p><p>B</p></div>'' no_options
     = Inr \<lparr>code = generate babel0
                      (File (Program (st_body (rewrite babel0 ex_pair [pair_candidate])))),
            components = [(''Extracted1'', 2, ''p:0:1:'')],
            changed = True\<rparr>
   \<and> fst (replaceOccurrencesWithComponent babel0 9 ex_pair pair_candidate)
     = [stmt (el 0 ''div'' [JSXElement 9 (JSXIdentifier ''Extracted1'') [] True [],
                            el 2 ''p'' [JSXText ''B'']])]"
proof (intro conjI)
  show "drop (length gs) (st_body (rewrite B ns gs)) = ns"
    using rewrite_body by blast
next
  show "count_references name (fst (replaceOccurrencesWithComponent B new ms candidate))
          \<le> Suc (count_references name ms)"
    by (rule replaceOccurrences_adds_at_most_one)
next
  show "findComponentCandidates babel0 (File (Program ex_pair)) no_options = Inr [pair_candidate]"
    by code_simp
next
  show "count pair_candidate = 2" by (simp add: pair_candidate_def)
next
  show "st_body (rewrite babel0 ex_pair [pair_candidate])
     = [Other ''FunctionDeclaration''
          [Identifier ''Extracted1'',
           Other ''BlockStatement''
             [Other ''ReturnStatement'' [JSXElement 4 (JSXIdentifier ''p'') [] False [JSXText ''A'']]]],
        stmt (el 0 ''div'' [el 1 ''p'' [JSXText ''A''], el 2 ''p'' [JSXText ''B'']])]"
    by code_simp
next
  show "count_declarations ''Extracted1'' (st_body (rewrite babel0 ex_pair [pair_candidate])) = 1"
    by code_simp
next
  show "count_references ''Extracted1'' (st_body (rewrite babel0 ex_pair [pair_candidate])) = 0"
    by code_simp
next
  show "extractComponents babel0 ''<div><p>A</p><p>B</p></div>'' no_options
     = Inr \<lparr>code = generate babel0
                      (File (Program (st_body (rewrite babel0 ex_pair [pair_candidate])))),
            components = [(''Extracted1'', 2, ''p:0:1:'')],
            changed = True\<rparr>"
    by code_simp
next
  show "fst (replaceOccurrencesWithComponent babel0 9 ex_pair pair_candidate)
     = [stmt (el 0 ''div'' [JSXElement 9 (JSXIdentifier ''Extracted1'') [] True [],
                            el 2 ''p'' [JSXText ''B'']])]"
    by code_simp
qed

end
